theory Spec2Isabelle
  imports Complex_Main "HOL-Library.Char_ord" "HOL-Library.List_Lexorder" "HOL-Library.Multiset"
begin

section \<open>grep\_sources.py: the walk, the dispatch order and the report\<close>

text \<open>
  The script walks the root paths, registers the source files it meets with their
  modification times, and runs \<^verbatim>\<open>grep\<close> on every registered file, newest first.
  Everything it learns about the world comes through \<^verbatim>\<open>os.stat\<close>, \<^verbatim>\<open>os.scandir\<close>, the
  methods of the directory entries and the \<^verbatim>\<open>grep\<close> subprocess. The model takes those
  answers as functions of an environment record and is otherwise the code, statement by
  statement. A Python exception is an \<open>Inl\<close> result.

  Strings are \<open>char list\<close>; a \<open>char\<close> is read as a code point below 256.
  A modification time is a finite float; floats are compared only, and the order of finite
  floats is the order of the rationals they denote, so a time is a \<open>rat\<close>.
\<close>

subsection \<open>Exceptions\<close>

datatype error =
    PermissionError
  | FileNotFoundError
  | OSError
  | RecursionError
  | CannotFind string
  | SubprocessFailed int string string
  | SystemExit nat

subsection \<open>The operating system as the script sees it\<close>

datatype file_kind = Regular | Directory | Special

record stat_result =
  st_kind :: file_kind
  st_dev :: nat
  st_ino :: nat
  st_mtime :: rat

text \<open>
  An \<^verbatim>\<open>os.DirEntry\<close>: its name, the answers of \<^verbatim>\<open>is_symlink()\<close>, \<^verbatim>\<open>is_dir()\<close> and
  \<^verbatim>\<open>is_file()\<close> (each may raise), and \<^verbatim>\<open>inode()\<close>, the inode number the directory
  listing carries.
\<close>

record dir_entry =
  name :: string
  is_symlink :: "error + bool"
  is_dir :: "error + bool"
  is_file :: "error + bool"
  inode :: nat

text \<open>
  \<open>stat\<close> is \<^verbatim>\<open>os.stat(path)\<close>, \<open>scandir\<close> is \<^verbatim>\<open>list(os.scandir(path))\<close>,
  \<open>popen\<close> is the run of a command line: what \<^verbatim>\<open>communicate()\<close> and \<^verbatim>\<open>wait()\<close>
  hand back (standard output, standard error, return code), or the exception raised when
  the process cannot be started or its output cannot be decoded.
  \<open>set_order\<close> is the order in which Python iterates over a \<^verbatim>\<open>set\<close> of strings built
  by the given insertions (it depends on the hash seed of the process).
  \<open>interpret_time\<close> is the script's relative-age formatter, which is floating-point
  formatting against the clock and is left abstract. \<open>rc_path\<close> is the expanded
  \<^verbatim>\<open>~/.grep_sources_dirs\<close> and \<open>rc_file\<close> its contents when the file exists.
  \<open>recursion_limit\<close> is the number of nested \<^verbatim>\<open>add_directory\<close> frames the interpreter
  allows before it raises \<^verbatim>\<open>RecursionError\<close>.
\<close>

record env =
  stat :: "string \<Rightarrow> error + stat_result"
  scandir :: "string \<Rightarrow> error + dir_entry list"
  popen :: "string list \<Rightarrow> error + (string \<times> string \<times> int)"
  set_order :: "string list \<Rightarrow> string list"
  interpret_time :: "rat \<Rightarrow> string"
  rc_path :: string
  rc_file :: "string option"
  recursion_limit :: nat

text \<open>
  The parsed command line. The skip options are used for their truth value only;
  \<open>max_lines\<close> holds \<^verbatim>\<open>str(args.max_lines)\<close>.
\<close>

record args =
  opt_i :: bool
  max_lines :: string
  skip_anaconda_dirs :: bool
  skip_node_module_dirs :: bool
  skip_google_cloud_sdk_dirs :: bool
  skip_dotdirs :: bool
  show_permission_errors :: bool
  regex :: string
  files_and_directories :: "string list"

text \<open>
  The three module-level collections. \<open>file_modtimes\<close> is a \<^verbatim>\<open>dict\<close>, kept as an
  association list in insertion order, which is the order \<^verbatim>\<open>keys()\<close> yields.
  \<open>scanned\<close> is not a variable of the script: it is the trace of the calls to
  \<^verbatim>\<open>os.scandir\<close>, each with the directory path and the identity the call was made under.
\<close>

record state =
  file_modtimes :: "(string \<times> rat) list"
  canonicals :: "nat set"
  permission_errors :: "string set"
  scanned :: "(string \<times> nat) list"

definition init_state :: state where
  "init_state = \<lparr>file_modtimes = [], canonicals = {}, permission_errors = {}, scanned = []\<rparr>"

subsection \<open>Python built-ins\<close>

text \<open>\<^verbatim>\<open>d[k] = v\<close> on a dict: an existing key keeps its position, a new one goes last.\<close>

fun setitem :: "'k \<Rightarrow> 'v \<Rightarrow> ('k \<times> 'v) list \<Rightarrow> ('k \<times> 'v) list" where
  "setitem k v [] = [(k, v)]"
| "setitem k v ((k', v') # d) = (if k' = k then (k, v) # d else (k', v') # setitem k v d)"

definition keys :: "('k \<times> 'v) list \<Rightarrow> 'k list" where
  "keys d = map fst d"

text \<open>\<^verbatim>\<open>d[k]\<close>; the script reads only keys it took from \<^verbatim>\<open>d.keys()\<close>.\<close>

definition getitem :: "('k \<times> 'v) list \<Rightarrow> 'k \<Rightarrow> 'v" where
  "getitem d k = the (map_of d k)"

text \<open>\<^verbatim>\<open>s.add(x)\<close> on a set, kept as the list of its first insertions.\<close>

definition set_add :: "'a \<Rightarrow> 'a list \<Rightarrow> 'a list" where
  "set_add x xs = (if x \<in> set xs then xs else xs @ [x])"

definition endswith :: "string \<Rightarrow> string \<Rightarrow> bool" where
  "endswith s suf = (length suf \<le> length s \<and> drop (length s - length suf) s = suf)"

definition startswith :: "string \<Rightarrow> string \<Rightarrow> bool" where
  "startswith s pre = (take (length pre) s = pre)"

text \<open>\<^verbatim>\<open>os.path.basename\<close> and \<^verbatim>\<open>os.path.join\<close> (POSIX).\<close>

definition basename :: "string \<Rightarrow> string" where
  "basename p = rev (takeWhile (\<lambda>c. c \<noteq> CHR ''/'') (rev p))"

definition join :: "string \<Rightarrow> string \<Rightarrow> string" where
  "join a b =
     (if startswith b ''/'' then b
      else if a = [] \<or> endswith a ''/'' then a @ b
      else a @ ''/'' @ b)"

text \<open>\<^verbatim>\<open>str.strip()\<close>: the characters below 256 for which \<^verbatim>\<open>isspace()\<close> holds.\<close>

definition isspace :: "char \<Rightarrow> bool" where
  "isspace c = ((of_char c :: nat) \<in> set [9, 10, 11, 12, 13, 28, 29, 30, 31, 32, 133, 160])"

definition strip :: "string \<Rightarrow> string" where
  "strip s = rev (dropWhile isspace (rev (dropWhile isspace s)))"

text \<open>\<^verbatim>\<open>s.split("\n")\<close>.\<close>

fun split_nl :: "string \<Rightarrow> string list" where
  "split_nl [] = [[]]"
| "split_nl (c # cs) =
     (if c = CHR 0x0A then [] # split_nl cs
      else (case split_nl cs of [] \<Rightarrow> [[c]] | l # ls \<Rightarrow> (c # l) # ls))"

text \<open>\<^verbatim>\<open>str(n)\<close> for a length.\<close>

fun str_nat :: "nat \<Rightarrow> string" where
  "str_nat n =
     (if n < 10 then [''0123456789'' ! n]
      else str_nat (n div 10) @ [''0123456789'' ! (n mod 10)])"

declare str_nat.simps [simp del]

text \<open>
  \<^verbatim>\<open>sorted(xs, key=key, reverse=True)\<close>: CPython reverses the list, sorts it stably in
  ascending order of the key, and reverses the result.
\<close>

definition sorted_reverse :: "('a \<Rightarrow> 'b::linorder) \<Rightarrow> 'a list \<Rightarrow> 'a list" where
  "sorted_reverse key xs = rev (sort_key key (rev xs))"

text \<open>A \<^verbatim>\<open>for\<close> loop whose body may raise: the first exception ends it.\<close>

fun for_each :: "('a \<Rightarrow> 's \<Rightarrow> error + 's) \<Rightarrow> 'a list \<Rightarrow> 's \<Rightarrow> error + 's" where
  "for_each body [] s = Inr s"
| "for_each body (x # xs) s =
     (case body x s of Inl e \<Rightarrow> Inl e | Inr s' \<Rightarrow> for_each body xs s')"

subsection \<open>\<^verbatim>\<open>os.path\<close> queries, all of them \<^verbatim>\<open>os.stat\<close>\<close>

definition getmtime :: "env \<Rightarrow> string \<Rightarrow> error + rat" where
  "getmtime e p = (case stat e p of Inl err \<Rightarrow> Inl err | Inr st \<Rightarrow> Inr (st_mtime st))"

definition isfile :: "env \<Rightarrow> string \<Rightarrow> bool" where
  "isfile e p = (case stat e p of Inl err \<Rightarrow> False | Inr st \<Rightarrow> st_kind st = Regular)"

definition isdir :: "env \<Rightarrow> string \<Rightarrow> bool" where
  "isdir e p = (case stat e p of Inl err \<Rightarrow> False | Inr st \<Rightarrow> st_kind st = Directory)"

subsection \<open>\<^verbatim>\<open>add_file\<close>\<close>

definition add_file :: "env \<Rightarrow> string \<Rightarrow> state \<Rightarrow> error + state" where
  "add_file e filename s =
     (case getmtime e filename of
        Inr t \<Rightarrow> Inr (s\<lparr>file_modtimes := setitem filename t (file_modtimes s)\<rparr>)
      | Inl err \<Rightarrow>
          if err = PermissionError
          then Inr (s\<lparr>permission_errors := insert filename (permission_errors s)\<rparr>)
          else Inl err)"

subsection \<open>\<^verbatim>\<open>add_directory\<close>\<close>

definition required_suffixes :: "string list" where
  "required_suffixes =
     [''.c'', ''.h'', ''.c++'', ''.h++'', ''.cpp'', ''.hpp'', ''.js'', ''.ts'', ''.html'',
      ''.rb'', ''.py'', ''.ipynb'']"

text \<open>
  The body of the loop over the entries (lines 56 to 65). \<open>dirs\<close> and \<open>files\<close> are the
  two locals; \<^verbatim>\<open>except PermissionError\<close> covers the three tests and nothing else.
\<close>

type_synonym locals = "(string \<times> dir_entry) list \<times> string list \<times> state"

definition denied :: "string \<Rightarrow> dir_entry \<Rightarrow> error \<Rightarrow> locals \<Rightarrow> error + locals" where
  "denied directory entry err l =
     (case l of (dirs, files, s) \<Rightarrow>
        if err = PermissionError
        then Inr (dirs, files,
                  s\<lparr>permission_errors := insert (join directory (name entry)) (permission_errors s)\<rparr>)
        else Inl err)"

definition classify :: "string \<Rightarrow> dir_entry \<Rightarrow> locals \<Rightarrow> error + locals" where
  "classify directory entry l =
     (case l of (dirs, files, s) \<Rightarrow>
        (case is_symlink entry of
           Inl err \<Rightarrow> denied directory entry err l
         | Inr True \<Rightarrow> Inr l
         | Inr False \<Rightarrow>
             (case is_dir entry of
                Inl err \<Rightarrow> denied directory entry err l
              | Inr True \<Rightarrow> Inr (setitem (name entry) entry dirs, files, s)
              | Inr False \<Rightarrow>
                  (case is_file entry of
                     Inl err \<Rightarrow> denied directory entry err l
                   | Inr True \<Rightarrow> Inr (dirs, set_add (name entry) files, s)
                   | Inr False \<Rightarrow> Inr l))))"

definition is_anaconda :: "(string \<times> dir_entry) list \<Rightarrow> bool" where
  "is_anaconda dirs =
     (''condabin'' \<in> set (keys dirs) \<and> ''bin'' \<in> set (keys dirs) \<and> ''conda-meta'' \<in> set (keys dirs))"

definition add_source_file :: "env \<Rightarrow> string \<Rightarrow> string \<Rightarrow> state \<Rightarrow> error + state" where
  "add_source_file e directory file s =
     (if list_ex (endswith file) required_suffixes
      then add_file e (join directory file) s
      else Inr s)"

text \<open>
  Lines 38 and 39. \<open>ino\<close> is the keyword argument \<^verbatim>\<open>inode\<close>: \<open>None\<close> when the caller
  leaves it out. \<^verbatim>\<open>not inode\<close> holds for \<^verbatim>\<open>None\<close> and for \<^verbatim>\<open>0\<close>.
\<close>

definition resolve_inode :: "env \<Rightarrow> string \<Rightarrow> nat option \<Rightarrow> error + nat" where
  "resolve_inode e directory ino =
     (case ino of
        None \<Rightarrow> (case stat e directory of Inl err \<Rightarrow> Inl err | Inr st \<Rightarrow> Inr (st_ino st))
      | Some n \<Rightarrow>
          if n = 0
          then (case stat e directory of Inl err \<Rightarrow> Inl err | Inr st \<Rightarrow> Inr (st_ino st))
          else Inr n)"

text \<open>Lines 43 to 48: the three tests on the path, each of which returns.\<close>

definition excluded :: "args \<Rightarrow> string \<Rightarrow> bool" where
  "excluded a directory =
     ((endswith directory ''/node_modules'' \<and> skip_node_module_dirs a) \<or>
      (skip_dotdirs a \<and> startswith (basename directory) ''.'') \<or>
      (endswith directory ''/google-cloud-sdk'' \<and> skip_google_cloud_sdk_dirs a))"

text \<open>
  The first argument after the options is the number of frames still allowed.
  \<open>ident\<close> is the local \<^verbatim>\<open>inode\<close> after line 39.
\<close>

fun add_directory :: "env \<Rightarrow> args \<Rightarrow> nat \<Rightarrow> string \<Rightarrow> nat option \<Rightarrow> state \<Rightarrow> error + state" where
  "add_directory e a 0 directory ino s = Inl RecursionError"
| "add_directory e a (Suc depth) directory ino s =
     (case resolve_inode e directory ino of
        Inl err \<Rightarrow> Inl err
      | Inr ident \<Rightarrow>
          if ident \<in> canonicals s then Inr s
          else
            let s1 = s\<lparr>canonicals := insert ident (canonicals s)\<rparr> in
            if excluded a directory then Inr s1
            else
              let s2 = s1\<lparr>scanned := scanned s1 @ [(directory, ident)]\<rparr> in
              (case scandir e directory of
                 Inl err \<Rightarrow>
                   if err = PermissionError
                   then Inr (s2\<lparr>permission_errors := insert directory (permission_errors s2)\<rparr>)
                   else Inl err
               | Inr entries \<Rightarrow>
                   (case for_each (classify directory) entries ([], [], s2) of
                      Inl err \<Rightarrow> Inl err
                    | Inr (dirs, files, s3) \<Rightarrow>
                        if skip_anaconda_dirs a \<and> is_anaconda dirs then Inr s3
                        else
                          (case for_each (add_source_file e directory) (set_order e files) s3 of
                             Inl err \<Rightarrow> Inl err
                           | Inr s4 \<Rightarrow>
                               for_each
                                 (\<lambda>(dirname, entry).
                                    add_directory e a depth (join directory dirname) (Some (inode entry)))
                                 dirs s4))))"

subsection \<open>\<^verbatim>\<open>run_grep\<close>\<close>

text \<open>
  The function returns \<^verbatim>\<open>out\<close>, raises, or falls off its end and returns \<^verbatim>\<open>None\<close>;
  the result is \<open>Some out\<close> or \<open>None\<close>.
\<close>

definition run_grep :: "env \<Rightarrow> string list \<Rightarrow> error + string option" where
  "run_grep e cmdline =
     (case popen e cmdline of
        Inl exn \<Rightarrow> Inl exn
      | Inr (out0, err0, ret) \<Rightarrow>
          let out = strip out0; err = strip err0 in
          if ret = 0 \<or> err = [] then Inr (Some out)
          else if err \<noteq> [] then Inl (SubprocessFailed ret err out)
          else Inr None)"

subsection \<open>\<^verbatim>\<open>main\<close>\<close>

text \<open>
  What the run shows: the strings handed to \<^verbatim>\<open>print\<close>, one per call, and (not a
  variable of the script) the command lines given to \<^verbatim>\<open>run_grep\<close>, in order.
\<close>

record report =
  stdout :: "string list"
  spawned :: "string list list"

text \<open>Lines 116 to 124: the root paths, and what is printed on the way.\<close>

definition root_paths :: "env \<Rightarrow> args \<Rightarrow> error + string list \<times> string list" where
  "root_paths e a =
     (if files_and_directories a \<noteq> [] then Inr (files_and_directories a, [])
      else
        (case rc_file e of
           None \<Rightarrow> Inl (SystemExit 1)
         | Some contents \<Rightarrow>
             Inr (split_nl (strip contents),
                  [''No files or directories specified;  reading from '' @ rc_path e])))"

text \<open>Lines 127 to 132, the body of the loop over the root paths.\<close>

definition add_root :: "env \<Rightarrow> args \<Rightarrow> string \<Rightarrow> state \<Rightarrow> error + state" where
  "add_root e a file_or_dir s =
     (if isfile e file_or_dir then add_file e file_or_dir s
      else if isdir e file_or_dir
      then add_directory e a (recursion_limit e) file_or_dir None s
      else Inl (CannotFind file_or_dir))"

definition walk :: "env \<Rightarrow> args \<Rightarrow> string list \<Rightarrow> error + state" where
  "walk e a roots = for_each (add_root e a) roots init_state"

text \<open>Lines 134 to 145. The set of permission errors is finite, so its sorted list exists.\<close>

definition summary :: "args \<Rightarrow> state \<Rightarrow> string list" where
  "summary a s =
     [''Searching '' @ str_nat (length (file_modtimes s)) @ '' files.'' @
        (if permission_errors s \<noteq> {}
         then '' ('' @ str_nat (card (permission_errors s)) @
              '' files/dirs skipped due to lack of permission.)''
         else [])] @
     (if show_permission_errors a \<and> permission_errors s \<noteq> {}
      then [''Missing permissions for:''] @ sorted_list_of_set (permission_errors s) @ [[]]
      else [])"

text \<open>Line 147.\<close>

definition filenames_to_search :: "(string \<times> rat) list \<Rightarrow> string list" where
  "filenames_to_search d = sorted_reverse (getitem d) (keys d)"

text \<open>Lines 150 to 153.\<close>

definition grep_cmdline :: "args \<Rightarrow> string \<Rightarrow> string list" where
  "grep_cmdline a filename =
     [''grep'', ''-m'', max_lines a] @ (if opt_i a then [''-i''] else []) @ [regex a, filename]"

text \<open>Lines 158 to 160: the string printed for one line of the output of grep.\<close>

definition render_line :: "string \<Rightarrow> string" where
  "render_line line =
     ''    '' @ (if length line > 95 then take 95 line @ ''...'' else line)"

text \<open>Lines 150 to 162, the body of the loop over the files. \<^verbatim>\<open>if out\<close> fails for
  \<^verbatim>\<open>None\<close> and for the empty string.\<close>

definition search_file :: "env \<Rightarrow> args \<Rightarrow> (string \<times> rat) list \<Rightarrow> string \<Rightarrow> report \<Rightarrow> error + report" where
  "search_file e a d filename o1 =
     (let cmdline = grep_cmdline a filename;
          o2 = o1\<lparr>spawned := spawned o1 @ [cmdline]\<rparr>
      in case run_grep e cmdline of
           Inl exn \<Rightarrow> Inl exn
         | Inr None \<Rightarrow> Inr o2
         | Inr (Some out) \<Rightarrow>
             if out = [] then Inr o2
             else Inr (o2\<lparr>stdout := stdout o2 @
                    [basename filename @ '' '' @ interpret_time e (getitem d filename) @
                       '' ('' @ filename @ '')''] @
                    map render_line (split_nl out) @ [[]]\<rparr>))"

definition main :: "env \<Rightarrow> args \<Rightarrow> error + report" where
  "main e a =
     (case root_paths e a of
        Inl exn \<Rightarrow> Inl exn
      | Inr (roots, printed) \<Rightarrow>
          (case walk e a roots of
             Inl exn \<Rightarrow> Inl exn
           | Inr s \<Rightarrow>
               for_each (search_file e a (file_modtimes s))
                 (filenames_to_search (file_modtimes s))
                 \<lparr>stdout = printed @ summary a s, spawned = []\<rparr>))"

subsection \<open>Notions the properties are stated with\<close>

text \<open>
  The walk has visited each identity once: no identity occurs twice in the trace of
  \<^verbatim>\<open>os.scandir\<close> calls, and every identity in the trace is in \<^verbatim>\<open>canonicals\<close>.
\<close>

definition visited_once :: "state \<Rightarrow> bool" where
  "visited_once s = (distinct (map snd (scanned s)) \<and> set (map snd (scanned s)) \<subseteq> canonicals s)"

text \<open>The device id and inode number of a path, the pair that names a physical directory.\<close>

definition physical_identity :: "env \<Rightarrow> string \<Rightarrow> error + nat \<times> nat" where
  "physical_identity e p =
     (case stat e p of Inl err \<Rightarrow> Inl err | Inr st \<Rightarrow> Inr (st_dev st, st_ino st))"

text \<open>The same operating system with every symbolic link taken out of every listing.\<close>

definition without_symlinks :: "env \<Rightarrow> env" where
  "without_symlinks e =
     e\<lparr>scandir := \<lambda>p. case scandir e p of
                        Inl err \<Rightarrow> Inl err
                      | Inr entries \<Rightarrow> Inr (filter (\<lambda>x. is_symlink x \<noteq> Inr True) entries)\<rparr>"

text \<open>Every entry of every listing carries a non-zero inode number.\<close>

definition inodes_listed :: "env \<Rightarrow> bool" where
  "inodes_listed e = (\<forall>p entries x. scandir e p = Inr entries \<longrightarrow> x \<in> set entries \<longrightarrow> inode x \<noteq> 0)"

text \<open>
  The exit status of grep: 0 when lines were selected, 1 when none were; any other value
  reports an error, and \<^verbatim>\<open>wait()\<close> gives a negative value for a process killed by a signal.
\<close>

definition ran_successfully :: "int \<Rightarrow> bool" where
  "ran_successfully ret = (ret = 0 \<or> ret = 1)"

subsection \<open>Small file systems to run the script on\<close>

definition a_directory :: "nat \<Rightarrow> nat \<Rightarrow> error + stat_result" where
  "a_directory dev ino = Inr \<lparr>st_kind = Directory, st_dev = dev, st_ino = ino, st_mtime = 0\<rparr>"

definition a_file :: "nat \<Rightarrow> rat \<Rightarrow> error + stat_result" where
  "a_file ino t = Inr \<lparr>st_kind = Regular, st_dev = 1, st_ino = ino, st_mtime = t\<rparr>"

definition entry_dir :: "string \<Rightarrow> nat \<Rightarrow> dir_entry" where
  "entry_dir n ino =
     \<lparr>name = n, is_symlink = Inr False, is_dir = Inr True, is_file = Inr False, inode = ino\<rparr>"

definition entry_file :: "string \<Rightarrow> nat \<Rightarrow> dir_entry" where
  "entry_file n ino =
     \<lparr>name = n, is_symlink = Inr False, is_dir = Inr False, is_file = Inr True, inode = ino\<rparr>"

text \<open>A link to a directory: \<^verbatim>\<open>is_dir()\<close> follows the link and answers true.\<close>

definition entry_link :: "string \<Rightarrow> nat \<Rightarrow> dir_entry" where
  "entry_link n ino =
     \<lparr>name = n, is_symlink = Inr True, is_dir = Inr True, is_file = Inr False, inode = ino\<rparr>"

definition entry_unreadable :: "string \<Rightarrow> nat \<Rightarrow> dir_entry" where
  "entry_unreadable n ino =
     \<lparr>name = n, is_symlink = Inr False, is_dir = Inl PermissionError, is_file = Inr False,
      inode = ino\<rparr>"

definition default_args :: "string list \<Rightarrow> args" where
  "default_args roots =
     \<lparr>opt_i = False, max_lines = ''5'', skip_anaconda_dirs = True, skip_node_module_dirs = True,
      skip_google_cloud_sdk_dirs = True, skip_dotdirs = True, show_permission_errors = False,
      regex = ''TODO'', files_and_directories = roots\<rparr>"

text \<open>Nothing exists, grep selects no line.\<close>

definition empty_os :: env where
  "empty_os =
     \<lparr>stat = (\<lambda>p. Inl FileNotFoundError), scandir = (\<lambda>p. Inl FileNotFoundError),
      popen = (\<lambda>c. Inr ([], [], 1)), set_order = (\<lambda>xs. xs),
      interpret_time = (\<lambda>t. ''2.0 days ago''), rc_path = ''/home/u/.grep_sources_dirs'',
      rc_file = None, recursion_limit = 8\<rparr>"

text \<open>\<^verbatim>\<open>/r/x\<close> and \<^verbatim>\<open>/r/y\<close> are one directory under two names (inode 7).\<close>

definition alias_os :: env where
  "alias_os =
     empty_os
       \<lparr>stat := (\<lambda>p. if p = ''/r'' then a_directory 1 2
                      else if p = ''/r/x/a.py'' \<or> p = ''/r/y/a.py'' then a_file 9 100
                      else Inl FileNotFoundError),
        scandir := (\<lambda>p. if p = ''/r'' then Inr [entry_dir ''x'' 7, entry_dir ''y'' 7]
                         else if p = ''/r/x'' \<or> p = ''/r/y'' then Inr [entry_file ''a.py'' 9]
                         else Inl FileNotFoundError)\<rparr>"

text \<open>\<^verbatim>\<open>/a\<close> and \<^verbatim>\<open>/b\<close> are different directories on two devices with equal inode numbers.\<close>

definition two_devices_os :: env where
  "two_devices_os =
     empty_os
       \<lparr>stat := (\<lambda>p. if p = ''/a'' then a_directory 1 5
                      else if p = ''/b'' then a_directory 2 5
                      else if p = ''/a/f.py'' then a_file 6 100
                      else if p = ''/b/g.py'' then a_file 6 200
                      else Inl FileNotFoundError),
        scandir := (\<lambda>p. if p = ''/a'' then Inr [entry_file ''f.py'' 6]
                         else if p = ''/b'' then Inr [entry_file ''g.py'' 6]
                         else Inl FileNotFoundError)\<rparr>"

text \<open>\<^verbatim>\<open>/r/gone.py\<close> is listed, and deleted before it is looked up.\<close>

definition vanished_os :: env where
  "vanished_os =
     empty_os
       \<lparr>stat := (\<lambda>p. if p = ''/r'' then a_directory 1 2
                      else if p = ''/r/kept.py'' then a_file 4 100
                      else Inl FileNotFoundError),
        scandir := (\<lambda>p. if p = ''/r'' then Inr [entry_file ''gone.py'' 3, entry_file ''kept.py'' 4]
                         else Inl FileNotFoundError)\<rparr>"

text \<open>
  \<^verbatim>\<open>/r/locked\<close> cannot be listed, \<^verbatim>\<open>/r/odd\<close> cannot be classified, \<^verbatim>\<open>/r/secret.py\<close>
  cannot be looked up, \<^verbatim>\<open>/r/a.py\<close> is an ordinary file.
\<close>

definition locked_os :: env where
  "locked_os =
     empty_os
       \<lparr>stat := (\<lambda>p. if p = ''/r'' then a_directory 1 2
                      else if p = ''/r/a.py'' then a_file 5 100
                      else if p = ''/r/secret.py'' then Inl PermissionError
                      else Inl FileNotFoundError),
        scandir := (\<lambda>p. if p = ''/r''
                         then Inr [entry_dir ''locked'' 3, entry_unreadable ''odd'' 4,
                                   entry_file ''secret.py'' 6, entry_file ''a.py'' 5]
                         else if p = ''/r/locked'' then Inl PermissionError
                         else Inl FileNotFoundError)\<rparr>"

text \<open>\<^verbatim>\<open>/r/loop\<close> is a symbolic link back to \<^verbatim>\<open>/r\<close>.\<close>

definition loop_os :: env where
  "loop_os =
     empty_os
       \<lparr>stat := (\<lambda>p. if p = ''/r'' then a_directory 1 2
                      else if p = ''/r/a.py'' then a_file 5 100
                      else Inl FileNotFoundError),
        scandir := (\<lambda>p. if p = ''/r'' then Inr [entry_link ''loop'' 2, entry_file ''a.py'' 5]
                         else Inl FileNotFoundError)\<rparr>"

text \<open>\<^verbatim>\<open>/opt/conda\<close> has the three marker directories, a source file and one more directory.\<close>

definition conda_os :: env where
  "conda_os =
     empty_os
       \<lparr>stat := (\<lambda>p. if p = ''/opt/conda'' then a_directory 1 2
                      else if p = ''/opt/conda/setup.py'' then a_file 5 100
                      else Inl FileNotFoundError),
        scandir := (\<lambda>p. if p = ''/opt/conda''
                         then Inr [entry_dir ''bin'' 3, entry_file ''setup.py'' 5,
                                   entry_dir ''condabin'' 4, entry_dir ''conda-meta'' 6,
                                   entry_dir ''lib'' 7]
                         else Inl FileNotFoundError)\<rparr>"

text \<open>
  \<^verbatim>\<open>/r/.git/notes.txt\<close> is a plain file in a hidden directory, with a suffix that is not a
  source suffix; grep selects one line of it.
\<close>

definition notes_os :: env where
  "notes_os =
     empty_os
       \<lparr>stat := (\<lambda>p. if p = ''/r/.git/notes.txt'' then a_file 5 100 else Inl FileNotFoundError),
        popen := (\<lambda>c. Inr (''TODO one'' @ [CHR 0x0A], [], 0))\<rparr>"

text \<open>One source file; grep is killed by a signal and writes nothing.\<close>

definition killed_grep_os :: env where
  "killed_grep_os =
     empty_os
       \<lparr>stat := (\<lambda>p. if p = ''/r/a.py'' then a_file 5 100 else Inl FileNotFoundError),
        popen := (\<lambda>c. Inr ([], [], - 9))\<rparr>"

text \<open>One source file; grep fails with status 2 and a message.\<close>

definition broken_grep_os :: env where
  "broken_grep_os =
     empty_os
       \<lparr>stat := (\<lambda>p. if p = ''/r/a.py'' then a_file 5 100 else Inl FileNotFoundError),
        popen := (\<lambda>c. Inr ([], ''grep: Input/output error'', 2))\<rparr>"

text \<open>
  One source file with two matching lines: the first is indented by eight blanks, the second
  is 97 characters long and ends in three blanks.
\<close>

definition indented_os :: env where
  "indented_os =
     empty_os
       \<lparr>stat := (\<lambda>p. if p = ''/r/a.py'' then a_file 5 100 else Inl FileNotFoundError),
        popen := (\<lambda>c. Inr (''        x = 1  # TODO'' @ [CHR 0x0A] @
                             ''yyyyyyyyyyyyyyyyyyyyyyyyyyyyyyyyyyyyyyyyyyyyyyyyyyyyyyyyyyyyyyyyyyyyyyyyyyyyyyyyyyyyyyyyyyyyyyyyy'' @
                             ''   '' @ [CHR 0x0A], [], 0))\<rparr>"

section \<open>Properties\<close>

subsection \<open>Loops\<close>

lemma for_each_inv:
  assumes "for_each body xs s = Inr s'" and "P s"
    and "\<And>x t t'. x \<in> set xs \<Longrightarrow> P t \<Longrightarrow> body x t = Inr t' \<Longrightarrow> P t'"
  shows "P s'"
  using assms
proof (induction xs arbitrary: s)
  case Nil
  then show ?case by simp
next
  case (Cons x xs)
  from Cons.prems(1) obtain t where t: "body x s = Inr t" and r: "for_each body xs t = Inr s'"
    by (auto split: sum.splits)
  have "P t" using Cons.prems(3) [of x s t] Cons.prems(2) t by simp
  then show ?case using Cons.IH [OF r] Cons.prems(3) by (meson list.set_intros(2))
qed

lemma for_each_not_raised:
  assumes "\<And>x t. x \<in> set xs \<Longrightarrow> body x t \<noteq> Inl exn"
  shows "for_each body xs s \<noteq> Inl exn"
  using assms
  by (induction xs arbitrary: s) (auto split: sum.splits)

lemma for_each_raises:
  assumes "x \<in> set xs" and "\<And>t. \<exists>exn. body x t = Inl exn"
  shows "\<exists>exn. for_each body xs s = Inl exn"
  using assms
proof (induction xs arbitrary: s)
  case Nil
  then show ?case by simp
next
  case (Cons y ys)
  show ?case
  proof (cases "body y s")
    case (Inl exn)
    then show ?thesis by simp
  next
    case (Inr t)
    show ?thesis
    proof (cases "x = y")
      case True
      then show ?thesis using Cons.prems(2) [of s] Inr by simp
    next
      case False
      then have "x \<in> set ys" using Cons.prems(1) by simp
      then show ?thesis using Cons.IH [of t] Cons.prems(2) Inr by simp
    qed
  qed
qed

subsection \<open>Dictionaries, \<^verbatim>\<open>add_file\<close> and the classification of an entry\<close>

lemma keys_setitem: "set (keys (setitem k v d)) = insert k (set (keys d))"
  by (induction k v d rule: setitem.induct) (auto simp: keys_def)

lemma values_setitem: "snd ` set (setitem k v d) \<subseteq> insert v (snd ` set d)"
  by (induction k v d rule: setitem.induct) auto

lemma add_file_keys:
  "add_file e f s = Inr s' \<Longrightarrow> set (keys (file_modtimes s)) \<subseteq> set (keys (file_modtimes s'))"
  by (auto simp: add_file_def keys_setitem split: sum.splits if_splits)

lemma add_file_rest:
  "add_file e f s = Inr s' \<Longrightarrow> canonicals s' = canonicals s \<and> scanned s' = scanned s"
  by (auto simp: add_file_def split: sum.splits if_splits)

lemma add_file_not_denied: "add_file e f s \<noteq> Inl PermissionError"
  by (auto simp: add_file_def split: sum.splits)

lemma add_source_file_keys:
  "add_source_file e d f s = Inr s' \<Longrightarrow> set (keys (file_modtimes s)) \<subseteq> set (keys (file_modtimes s'))"
  using add_file_keys by (auto simp: add_source_file_def split: if_splits)

lemma add_source_file_rest:
  "add_source_file e d f s = Inr s' \<Longrightarrow> canonicals s' = canonicals s \<and> scanned s' = scanned s"
  using add_file_rest by (auto simp: add_source_file_def split: if_splits)

lemma add_source_file_not_denied: "add_source_file e d f s \<noteq> Inl PermissionError"
  by (simp add: add_source_file_def add_file_not_denied)

lemma classify_state:
  "classify d x (dirs, files, s) = Inr (dirs', files', s') \<Longrightarrow>
     file_modtimes s' = file_modtimes s \<and> canonicals s' = canonicals s \<and> scanned s' = scanned s"
  by (auto simp: classify_def denied_def split: sum.splits bool.splits if_splits)

lemma classify_not_denied: "classify d x l \<noteq> Inl PermissionError"
  by (cases l) (auto simp: classify_def denied_def split: sum.splits bool.splits)

lemma classify_dirs:
  "classify d x (dirs, files, s) = Inr (dirs', files', s') \<Longrightarrow>
     snd ` set dirs' \<subseteq> insert x (snd ` set dirs)"
  using values_setitem [of "name x" x dirs]
  by (auto simp: classify_def denied_def split: sum.splits bool.splits if_splits)

lemma classify_keeps_keys:
  "classify d x (dirs, files, s) = Inr (dirs', files', s') \<Longrightarrow>
     set (keys dirs) \<subseteq> set (keys dirs')"
  by (auto simp: classify_def denied_def keys_setitem split: sum.splits bool.splits if_splits)

lemma classify_loop_step:
  assumes "for_each (classify d) (y # ys) (dirs0, files0, s0) = Inr (dirs, files, s)"
  obtains dirs1 files1 s1 where "classify d y (dirs0, files0, s0) = Inr (dirs1, files1, s1)"
    and "for_each (classify d) ys (dirs1, files1, s1) = Inr (dirs, files, s)"
proof (cases "classify d y (dirs0, files0, s0)")
  case (Inl exn)
  then show ?thesis using assms by simp
next
  case (Inr l)
  obtain dirs1 files1 s1 where "l = (dirs1, files1, s1)" by (cases l)
  then show ?thesis using assms Inr that by simp
qed

lemma classify_loop_state:
  "for_each (classify d) entries (dirs0, files0, s0) = Inr (dirs, files, s) \<Longrightarrow>
     file_modtimes s = file_modtimes s0 \<and> canonicals s = canonicals s0 \<and> scanned s = scanned s0"
proof (induction entries arbitrary: dirs0 files0 s0)
  case Nil
  then show ?case by simp
next
  case (Cons y ys)
  from Cons.prems obtain dirs1 files1 s1
    where y: "classify d y (dirs0, files0, s0) = Inr (dirs1, files1, s1)"
      and r: "for_each (classify d) ys (dirs1, files1, s1) = Inr (dirs, files, s)"
    by (rule classify_loop_step)
  show ?case using Cons.IH [OF r] classify_state [OF y] by simp
qed

lemma classify_loop_dirs:
  "for_each (classify d) entries (dirs0, files0, s0) = Inr (dirs, files, s) \<Longrightarrow>
     snd ` set dirs \<subseteq> snd ` set dirs0 \<union> set entries"
proof (induction entries arbitrary: dirs0 files0 s0)
  case Nil
  then show ?case by simp
next
  case (Cons y ys)
  from Cons.prems obtain dirs1 files1 s1
    where y: "classify d y (dirs0, files0, s0) = Inr (dirs1, files1, s1)"
      and r: "for_each (classify d) ys (dirs1, files1, s1) = Inr (dirs, files, s)"
    by (rule classify_loop_step)
  show ?case using Cons.IH [OF r] classify_dirs [OF y] by auto
qed

lemma classify_loop_keeps_keys:
  "for_each (classify d) entries (dirs0, files0, s0) = Inr (dirs, files, s) \<Longrightarrow>
     set (keys dirs0) \<subseteq> set (keys dirs)"
proof (induction entries arbitrary: dirs0 files0 s0)
  case Nil
  then show ?case by simp
next
  case (Cons y ys)
  from Cons.prems obtain dirs1 files1 s1
    where y: "classify d y (dirs0, files0, s0) = Inr (dirs1, files1, s1)"
      and r: "for_each (classify d) ys (dirs1, files1, s1) = Inr (dirs, files, s)"
    by (rule classify_loop_step)
  show ?case using Cons.IH [OF r] classify_keeps_keys [OF y] by auto
qed

lemma classify_loop_finds_dir:
  assumes "for_each (classify d) entries (dirs0, files0, s0) = Inr (dirs, files, s)"
    and "x \<in> set entries" and "is_symlink x = Inr False" and "is_dir x = Inr True"
  shows "name x \<in> set (keys dirs)"
  using assms
proof (induction entries arbitrary: dirs0 files0 s0)
  case Nil
  then show ?case by simp
next
  case (Cons y ys)
  from Cons.prems(1) obtain dirs1 files1 s1
    where y: "classify d y (dirs0, files0, s0) = Inr (dirs1, files1, s1)"
      and r: "for_each (classify d) ys (dirs1, files1, s1) = Inr (dirs, files, s)"
    by (rule classify_loop_step)
  show ?case
  proof (cases "x = y")
    case True
    have "dirs1 = setitem (name x) x dirs0"
      using y True Cons.prems(3,4) by (simp add: classify_def)
    then have "name x \<in> set (keys dirs1)" by (simp add: keys_setitem)
    then show ?thesis using classify_loop_keeps_keys [OF r] by blast
  next
    case False
    then have "x \<in> set ys" using Cons.prems(2) by simp
    then show ?thesis using Cons.IH [OF r] Cons.prems(3,4) by simp
  qed
qed

subsection \<open>\<^verbatim>\<open>add_directory\<close>, case by case\<close>

lemma add_directory_cases:
  assumes "add_directory e a (Suc n) d ino s = Inr s'"
  obtains
    (visited) ident where "resolve_inode e d ino = Inr ident" "ident \<in> canonicals s" "s' = s"
  | (excluded) ident where "resolve_inode e d ino = Inr ident" "ident \<notin> canonicals s"
      "excluded a d" "s' = s\<lparr>canonicals := insert ident (canonicals s)\<rparr>"
  | (denied) ident where "resolve_inode e d ino = Inr ident" "ident \<notin> canonicals s"
      "\<not> excluded a d" "scandir e d = Inl PermissionError"
      "s' = s\<lparr>canonicals := insert ident (canonicals s), scanned := scanned s @ [(d, ident)],
              permission_errors := insert d (permission_errors s)\<rparr>"
  | (anaconda) ident entries dirs files where "resolve_inode e d ino = Inr ident"
      "ident \<notin> canonicals s" "\<not> excluded a d" "scandir e d = Inr entries"
      "for_each (classify d) entries
         ([], [], s\<lparr>canonicals := insert ident (canonicals s), scanned := scanned s @ [(d, ident)]\<rparr>)
       = Inr (dirs, files, s')"
      "skip_anaconda_dirs a" "is_anaconda dirs"
  | (walked) ident entries dirs files s3 s4 where "resolve_inode e d ino = Inr ident"
      "ident \<notin> canonicals s" "\<not> excluded a d" "scandir e d = Inr entries"
      "for_each (classify d) entries
         ([], [], s\<lparr>canonicals := insert ident (canonicals s), scanned := scanned s @ [(d, ident)]\<rparr>)
       = Inr (dirs, files, s3)"
      "\<not> (skip_anaconda_dirs a \<and> is_anaconda dirs)"
      "for_each (add_source_file e d) (set_order e files) s3 = Inr s4"
      "for_each (\<lambda>(dirname, entry). add_directory e a n (join d dirname) (Some (inode entry))) dirs s4
       = Inr s'"
  using assms
  by (simp add: Let_def split: sum.splits if_splits prod.splits)

lemma files_loop_inv:
  assumes "for_each (add_source_file e d) fs s = Inr s'"
  shows "set (keys (file_modtimes s)) \<subseteq> set (keys (file_modtimes s')) \<and>
         canonicals s' = canonicals s \<and> scanned s' = scanned s"
proof -
  let ?P = "\<lambda>t. set (keys (file_modtimes s)) \<subseteq> set (keys (file_modtimes t)) \<and>
         canonicals t = canonicals s \<and> scanned t = scanned s"
  show ?thesis
  proof (rule for_each_inv [OF assms, of ?P])
    show "?P s" by simp
  next
    fix x t t' assume "?P t" "add_source_file e d x t = Inr t'"
    then show "?P t'"
      using add_source_file_keys [of e d x t t'] add_source_file_rest [of e d x t t'] by auto
  qed
qed

lemma add_directory_keeps_keys:
  "add_directory e a n d ino s = Inr s' \<Longrightarrow>
     set (keys (file_modtimes s)) \<subseteq> set (keys (file_modtimes s'))"
proof (induction n arbitrary: d ino s s')
  case 0
  then show ?case by simp
next
  case (Suc n)
  from Suc.prems show ?case
  proof (cases rule: add_directory_cases)
    case (anaconda ident entries dirs files)
    then show ?thesis using classify_loop_state [OF anaconda(5)] by simp
  next
    case (walked ident entries dirs files s3 s4)
    let ?P = "\<lambda>t. set (keys (file_modtimes s)) \<subseteq> set (keys (file_modtimes t))"
    have s3: "file_modtimes s3 = file_modtimes s"
      using classify_loop_state [OF walked(5)] by simp
    have s4: "?P s4" using files_loop_inv [OF walked(7)] s3 by simp
    show ?thesis
    proof (rule for_each_inv [OF walked(8), of ?P])
      show "?P s4" by (rule s4)
    next
      fix x t t'
      assume "?P t"
        "(case x of (dirname, entry) \<Rightarrow> add_directory e a n (join d dirname) (Some (inode entry))) t = Inr t'"
      then show "?P t'" using Suc.IH by (cases x) fastforce
    qed
  qed simp_all
qed

lemma add_directory_visited_once:
  "add_directory e a n d ino s = Inr s' \<Longrightarrow> visited_once s \<Longrightarrow> visited_once s'"
proof (induction n arbitrary: d ino s s')
  case 0
  then show ?case by simp
next
  case (Suc n)
  from Suc.prems(1) show ?case
  proof (cases rule: add_directory_cases)
    case (visited ident)
    then show ?thesis using Suc.prems(2) by simp
  next
    case (excluded ident)
    then show ?thesis using Suc.prems(2) by (auto simp: visited_once_def)
  next
    case (denied ident)
    then show ?thesis using Suc.prems(2) by (auto simp: visited_once_def)
  next
    case (anaconda ident entries dirs files)
    then show ?thesis using classify_loop_state [OF anaconda(5)] Suc.prems(2)
      by (auto simp: visited_once_def)
  next
    case (walked ident entries dirs files s3 s4)
    have "visited_once s3"
      using classify_loop_state [OF walked(5)] Suc.prems(2) walked(2)
      by (auto simp: visited_once_def)
    then have s4: "visited_once s4"
      using files_loop_inv [OF walked(7)] by (simp add: visited_once_def)
    show ?thesis
    proof (rule for_each_inv [OF walked(8), of visited_once])
      show "visited_once s4" by (rule s4)
    next
      fix x t t'
      assume "visited_once t"
        "(case x of (dirname, entry) \<Rightarrow> add_directory e a n (join d dirname) (Some (inode entry))) t = Inr t'"
      then show "visited_once t'" using Suc.IH by (cases x) fastforce
    qed
  qed
qed

lemma add_directory_not_denied:
  "inodes_listed e \<Longrightarrow> resolve_inode e d ino \<noteq> Inl PermissionError \<Longrightarrow>
     add_directory e a n d ino s \<noteq> Inl PermissionError"
proof (induction n arbitrary: d ino s)
  case 0
  then show ?case by simp
next
  case (Suc n)
  have body: "for_each (\<lambda>(dirname, entry). add_directory e a n (join d dirname) (Some (inode entry))) dirs t
                \<noteq> Inl PermissionError"
    if "snd ` set dirs \<subseteq> set entries" "scandir e d = Inr entries" for dirs entries t
  proof (rule for_each_not_raised)
    fix x u assume x: "x \<in> set dirs"
    obtain dn en where [simp]: "x = (dn, en)" by (cases x)
    have "en \<in> set entries" using x that(1) by force
    then have "inode en \<noteq> 0" using Suc.prems(1) that(2) by (auto simp: inodes_listed_def)
    then have "resolve_inode e (join d dn) (Some (inode en)) \<noteq> Inl PermissionError"
      by (simp add: resolve_inode_def)
    then show "(case x of (dirname, entry) \<Rightarrow> add_directory e a n (join d dirname) (Some (inode entry))) u
                 \<noteq> Inl PermissionError"
      using Suc.IH [OF Suc.prems(1)] by simp
  qed
  have cl: "for_each (classify d) entries l \<noteq> Inl PermissionError" for entries l
    by (rule for_each_not_raised) (rule classify_not_denied)
  have fl: "for_each (add_source_file e d) fs t \<noteq> Inl PermissionError" for fs t
    by (rule for_each_not_raised) (rule add_source_file_not_denied)
  show ?case
  proof (cases "resolve_inode e d ino")
    case (Inl exn)
    then show ?thesis using Suc.prems(2) by auto
  next
    case ident: (Inr ident)
    let ?s2 = "s\<lparr>canonicals := insert ident (canonicals s), scanned := scanned s @ [(d, ident)]\<rparr>"
    show ?thesis
    proof (cases "scandir e d")
      case (Inl exn)
      then show ?thesis using ident by (simp add: Let_def)
    next
      case entries: (Inr entries)
      show ?thesis
      proof (cases "for_each (classify d) entries ([], [], ?s2)")
        case (Inl exn)
        then have "exn \<noteq> PermissionError" using cl [of entries "([], [], ?s2)"] by auto
        then show ?thesis using ident entries Inl by (simp add: Let_def)
      next
        case (Inr l)
        obtain dirs files s3 where l: "l = (dirs, files, s3)" by (cases l)
        have sub: "snd ` set dirs \<subseteq> set entries"
          using classify_loop_dirs [of d entries "[]" "[]" ?s2 dirs files s3] Inr l by simp
        show ?thesis
        proof (cases "for_each (add_source_file e d) (set_order e files) s3")
          case (Inl exn)
          then have "exn \<noteq> PermissionError" using fl [of "set_order e files" s3] by auto
          then show ?thesis using ident entries Inr l Inl by (simp add: Let_def)
        next
          case s4: (Inr s4)
          show ?thesis
            using ident entries Inr l s4 body [OF sub entries, of s4] by (simp add: Let_def)
        qed
      qed
    qed
  qed
qed

subsection \<open>What the walk records\<close>

lemma dirs_loop_canonicals:
  assumes "for_each (\<lambda>(dirname, entry). add_directory e a n (join d dirname) (Some (inode entry))) dirs s
             = Inr s'"
    and "\<And>p i t t'. add_directory e a n p i t = Inr t' \<Longrightarrow> canonicals t \<subseteq> canonicals t'"
  shows "canonicals s \<subseteq> canonicals s'"
proof (rule for_each_inv [OF assms(1), of "\<lambda>t. canonicals s \<subseteq> canonicals t"])
  show "canonicals s \<subseteq> canonicals s" by simp
next
  fix x t t'
  assume "canonicals s \<subseteq> canonicals t"
    "(case x of (dirname, entry) \<Rightarrow> add_directory e a n (join d dirname) (Some (inode entry))) t = Inr t'"
  then show "canonicals s \<subseteq> canonicals t'" using assms(2) by (cases x) fastforce
qed

lemma add_directory_canonicals:
  "add_directory e a n d ino s = Inr s' \<Longrightarrow> canonicals s \<subseteq> canonicals s'"
proof (induction n arbitrary: d ino s s')
  case 0
  then show ?case by simp
next
  case (Suc n)
  from Suc.prems show ?case
  proof (cases rule: add_directory_cases)
    case (anaconda ident entries dirs files)
    then show ?thesis using classify_loop_state [OF anaconda(5)] by auto
  next
    case (walked ident entries dirs files s3 s4)
    have "canonicals s \<subseteq> canonicals s4"
      using classify_loop_state [OF walked(5)] files_loop_inv [OF walked(7)] by auto
    moreover have "canonicals s4 \<subseteq> canonicals s'"
      using dirs_loop_canonicals [OF walked(8)] Suc.IH by blast
    ultimately show ?thesis by blast
  qed auto
qed

lemma add_directory_records:
  assumes "add_directory e a (Suc n) d ino s = Inr s'" and "resolve_inode e d ino = Inr ident"
  shows "ident \<in> canonicals s'"
  using assms(1)
proof (cases rule: add_directory_cases)
  case (anaconda i entries dirs files)
  then show ?thesis using classify_loop_state [OF anaconda(5)] assms(2) by auto
next
  case (walked i entries dirs files s3 s4)
  have "ident \<in> canonicals s4"
    using classify_loop_state [OF walked(5)] files_loop_inv [OF walked(7)] walked(1) assms(2) by auto
  moreover have "canonicals s4 \<subseteq> canonicals s'"
    using dirs_loop_canonicals [OF walked(8)] add_directory_canonicals by blast
  ultimately show ?thesis by blast
qed (use assms(2) in auto)

subsection \<open>Symbolic links and unreadable entries\<close>

lemma classify_symlink: "is_symlink x = Inr True \<Longrightarrow> classify d x l = Inr l"
  by (cases l) (simp add: classify_def)

lemma classify_denied:
  assumes "is_symlink x = Inl PermissionError \<or>
           is_symlink x = Inr False \<and>
             (is_dir x = Inl PermissionError \<or> is_dir x = Inr False \<and> is_file x = Inl PermissionError)"
  shows "classify d x (dirs, files, s)
           = Inr (dirs, files, s\<lparr>permission_errors := insert (join d (name x)) (permission_errors s)\<rparr>)"
  using assms by (auto simp: classify_def denied_def)

lemma classify_loop_filter:
  "for_each (classify d) (filter (\<lambda>x. is_symlink x \<noteq> Inr True) entries) l
     = for_each (classify d) entries l"
  by (induction entries arbitrary: l) (auto simp: classify_symlink split: sum.splits)

lemma without_symlinks_simps:
  "stat (without_symlinks e) = stat e"
  "set_order (without_symlinks e) = set_order e"
  "recursion_limit (without_symlinks e) = recursion_limit e"
  "scandir (without_symlinks e) d =
     (case scandir e d of
        Inl err \<Rightarrow> Inl err
      | Inr entries \<Rightarrow> Inr (filter (\<lambda>x. is_symlink x \<noteq> Inr True) entries))"
  by (simp_all add: without_symlinks_def)

lemma without_symlinks_calls:
  "resolve_inode (without_symlinks e) = resolve_inode e"
  "add_source_file (without_symlinks e) = add_source_file e"
  by (auto simp: fun_eq_iff resolve_inode_def add_source_file_def add_file_def getmtime_def
      without_symlinks_simps split: option.splits)

lemma add_directory_without_symlinks:
  "add_directory (without_symlinks e) a n d ino s = add_directory e a n d ino s"
proof (induction n arbitrary: d ino s)
  case 0
  then show ?case by simp
next
  case (Suc n)
  have deeper: "add_directory (without_symlinks e) a n p i = add_directory e a n p i" for p i
    by (rule ext) (rule Suc.IH)
  show ?case
    by (auto simp: without_symlinks_calls without_symlinks_simps classify_loop_filter deeper Let_def
        split: sum.splits prod.splits)
qed

subsection \<open>The root paths and the search loop\<close>

lemma search_file_spawned:
  "search_file e a d f r0 = Inr r1 \<Longrightarrow> spawned r1 = spawned r0 @ [grep_cmdline a f]"
  by (auto simp: search_file_def Let_def split: sum.splits option.splits if_splits)

lemma search_loop_spawned:
  "for_each (search_file e a d) fs r0 = Inr r \<Longrightarrow> spawned r = spawned r0 @ map (grep_cmdline a) fs"
proof (induction fs arbitrary: r0)
  case Nil
  then show ?case by simp
next
  case (Cons f fs)
  from Cons.prems obtain r1 where f: "search_file e a d f r0 = Inr r1"
    and r: "for_each (search_file e a d) fs r1 = Inr r"
    by (auto split: sum.splits)
  show ?case using Cons.IH [OF r] search_file_spawned [OF f] by simp
qed

lemma set_filenames_to_search: "set (filenames_to_search d) = set (keys d)"
  by (simp add: filenames_to_search_def sorted_reverse_def)

lemma add_root_file:
  assumes "isfile e p"
  shows "\<exists>t. getmtime e p = Inr t \<and>
           (\<forall>s. add_root e a p s = Inr (s\<lparr>file_modtimes := setitem p t (file_modtimes s)\<rparr>))"
proof -
  from assms obtain st where "stat e p = Inr st"
    by (auto simp: isfile_def split: sum.splits)
  then have "getmtime e p = Inr (st_mtime st)" by (simp add: getmtime_def)
  then show ?thesis using assms by (simp add: add_root_def add_file_def)
qed

lemma add_root_keeps_keys:
  "add_root e a p s = Inr s' \<Longrightarrow> set (keys (file_modtimes s)) \<subseteq> set (keys (file_modtimes s'))"
  using add_file_keys [of e p s s'] add_directory_keeps_keys [of e a "recursion_limit e" p None s s']
  by (auto simp: add_root_def split: if_splits)

lemma roots_loop_registers:
  assumes "for_each (add_root e a) roots s0 = Inr s" and "p \<in> set roots" and "isfile e p"
  shows "p \<in> set (keys (file_modtimes s))"
  using assms(1,2)
proof (induction roots arbitrary: s0)
  case Nil
  then show ?case by simp
next
  case (Cons q qs)
  from Cons.prems(1) obtain s1 where q: "add_root e a q s0 = Inr s1"
    and r: "for_each (add_root e a) qs s1 = Inr s"
    by (auto split: sum.splits)
  show ?case
  proof (cases "p \<in> set qs")
    case True
    then show ?thesis using Cons.IH [OF r] by simp
  next
    case False
    then have "q = p" using Cons.prems(2) by simp
    then have "p \<in> set (keys (file_modtimes s1))"
      using add_root_file [OF assms(3), of a] q by (auto simp: keys_setitem)
    moreover have "set (keys (file_modtimes s1)) \<subseteq> set (keys (file_modtimes s))"
    proof (rule for_each_inv [OF r, of "\<lambda>t. set (keys (file_modtimes s1)) \<subseteq> set (keys (file_modtimes t))"])
      show "set (keys (file_modtimes s1)) \<subseteq> set (keys (file_modtimes s1))" by simp
    next
      fix x t t'
      assume "set (keys (file_modtimes s1)) \<subseteq> set (keys (file_modtimes t))" "add_root e a x t = Inr t'"
      then show "set (keys (file_modtimes s1)) \<subseteq> set (keys (file_modtimes t'))"
        using add_root_keeps_keys [of e a x t t'] by blast
    qed
    ultimately show ?thesis by blast
  qed
qed

lemma add_root_not_denied:
  assumes "inodes_listed e"
  shows "add_root e a p s \<noteq> Inl PermissionError"
proof (cases "isfile e p")
  case True
  then show ?thesis by (simp add: add_root_def add_file_not_denied)
next
  case False
  show ?thesis
  proof (cases "isdir e p")
    case True
    then have "resolve_inode e p None \<noteq> Inl PermissionError"
      by (auto simp: isdir_def resolve_inode_def split: sum.splits)
    then show ?thesis
      using False True add_directory_not_denied [OF assms] by (simp add: add_root_def)
  next
    case no: False
    then show ?thesis using False by (simp add: add_root_def)
  qed
qed

lemma walk_visited_once: "walk e a roots = Inr s \<Longrightarrow> visited_once s"
  unfolding walk_def
proof (rule for_each_inv [where P = visited_once])
  show "visited_once init_state" by (simp add: visited_once_def init_state_def)
next
  fix x t t' assume "visited_once t" "add_root e a x t = Inr t'"
  then show "visited_once t'"
    using add_directory_visited_once [of e a "recursion_limit e" x None t t']
      add_file_rest [of e x t t']
    by (cases "isfile e x"; cases "isdir e x") (simp_all add: add_root_def visited_once_def)
qed

subsection \<open>What is printed for a file\<close>

lemma split_nl_nonempty: "split_nl s \<noteq> []"
  by (induction s) (auto split: list.splits)

lemma split_nl_no_newline: "CHR 0x0A \<notin> set (concat (split_nl s))"
  by (induction s) (auto split: list.splits)

lemma split_nl_rejoin: "concat (map (\<lambda>l. l @ [CHR 0x0A]) (split_nl s)) = s @ [CHR 0x0A]"
  by (induction s) (auto simp: split_nl_nonempty split: list.splits)

lemma search_file_stdout:
  "search_file e a d f r0 = Inr r1 \<Longrightarrow> set (stdout r0) \<subseteq> set (stdout r1)"
  by (auto simp: search_file_def Let_def split: sum.splits option.splits if_splits)

lemma search_loop_stdout:
  "for_each (search_file e a d) fs r0 = Inr r \<Longrightarrow> set (stdout r0) \<subseteq> set (stdout r)"
proof (rule for_each_inv [where P = "\<lambda>t. set (stdout r0) \<subseteq> set (stdout t)"])
  show "set (stdout r0) \<subseteq> set (stdout r0)" by simp
next
  fix x t t' assume "set (stdout r0) \<subseteq> set (stdout t)" "search_file e a d x t = Inr t'"
  then show "set (stdout r0) \<subseteq> set (stdout t')" using search_file_stdout by blast
qed

lemma search_file_prints:
  assumes "popen e (grep_cmdline a f) = Inr (out0, err0, ret)" and "ret = 0 \<or> strip err0 = []"
    and "strip out0 \<noteq> []"
  shows "search_file e a d f r
           = Inr (r\<lparr>spawned := spawned r @ [grep_cmdline a f],
                    stdout := stdout r @
                      [basename f @ '' '' @ interpret_time e (getitem d f) @ '' ('' @ f @ '')''] @
                      map (\<lambda>l. ''    '' @ (if 95 < length l then take 95 l @ ''...'' else l))
                        (split_nl (strip out0)) @
                      [[]]\<rparr>)"
  using assms by (auto simp: search_file_def run_grep_def render_line_def Let_def fun_eq_iff)

lemma search_loop_prints:
  assumes "for_each (search_file e a d) fs r0 = Inr r" and "f \<in> set fs"
    and "popen e (grep_cmdline a f) = Inr (out0, err0, ret)" and "strip out0 \<noteq> []"
    and "l \<in> set (split_nl (strip out0))"
  shows "''    '' @ (if 95 < length l then take 95 l @ ''...'' else l) \<in> set (stdout r)"
  using assms(1,2)
proof (induction fs arbitrary: r0)
  case Nil
  then show ?case by simp
next
  case (Cons g gs)
  from Cons.prems(1) obtain r1 where g: "search_file e a d g r0 = Inr r1"
    and rest: "for_each (search_file e a d) gs r1 = Inr r"
    by (auto split: sum.splits)
  show ?case
  proof (cases "f = g")
    case True
    have ok: "ret = 0 \<or> strip err0 = []"
      using g True assms(3) by (auto simp: search_file_def run_grep_def Let_def split: if_splits)
    have "''    '' @ (if 95 < length l then take 95 l @ ''...'' else l) \<in> set (stdout r1)"
      using g True search_file_prints [OF assms(3) ok assms(4), of d r0] assms(5) by auto
    then show ?thesis using search_loop_stdout [OF rest] by blast
  next
    case False
    then show ?thesis using Cons.IH [OF rest] Cons.prems(2) by simp
  qed
qed

subsection \<open>Running the script on the small file systems\<close>

lemmas add_directory_numeral =
  add_directory.simps(2) [where depth = "pred_numeral k", folded numeral_eq_Suc] for k

lemmas os_defs =
  empty_os_def a_directory_def a_file_def entry_dir_def entry_file_def entry_link_def
  entry_unreadable_def default_args_def init_state_def

lemmas script_defs =
  add_file_def getmtime_def isfile_def isdir_def classify_def denied_def is_anaconda_def
  add_source_file_def resolve_inode_def excluded_def add_root_def walk_def
  required_suffixes_def endswith_def startswith_def basename_def join_def keys_def set_add_def
  Let_def

lemmas main_defs =
  main_def root_paths_def summary_def filenames_to_search_def sorted_reverse_def getitem_def
  grep_cmdline_def search_file_def run_grep_def render_line_def strip_def isspace_def
  str_nat.simps

lemma inodes_listed_locked_os: "inodes_listed locked_os"
  by (auto simp: inodes_listed_def locked_os_def os_defs split: if_splits)

section \<open>The claims\<close>

subsection \<open>C1: each directory identity is listed once\<close>

text \<open>
  C1 as stated fails in what it takes the identity of a directory to be. The script keeps
  inode numbers and nothing else in \<^verbatim>\<open>canonicals\<close>; the device id is never read. In
  \<open>two_devices_os\<close> the directories \<^verbatim>\<open>/a\<close> and \<^verbatim>\<open>/b\<close> lie on two devices and have the
  same inode number 5: their device-and-inode identities differ, and still the call for
  \<^verbatim>\<open>/b\<close> finds 5 in \<^verbatim>\<open>canonicals\<close> and returns at once, without listing \<^verbatim>\<open>/b\<close> and without
  recording anything, so \<^verbatim>\<open>/b/g.py\<close> is never registered.
\<close>

theorem inode_alone_is_the_identity:
  "physical_identity two_devices_os ''/a'' = Inr (1, 5) \<and>
   physical_identity two_devices_os ''/b'' = Inr (2, 5) \<and>
   add_directory two_devices_os (default_args [''/a'', ''/b'']) 8 ''/a'' None init_state
     = Inr \<lparr>file_modtimes = [(''/a/f.py'', 100)], canonicals = {5}, permission_errors = {},
            scanned = [(''/a'', 5)]\<rparr> \<and>
   add_directory two_devices_os (default_args [''/a'', ''/b'']) 8 ''/b'' None
       \<lparr>file_modtimes = [(''/a/f.py'', 100)], canonicals = {5}, permission_errors = {},
        scanned = [(''/a'', 5)]\<rparr>
     = Inr \<lparr>file_modtimes = [(''/a/f.py'', 100)], canonicals = {5}, permission_errors = {},
            scanned = [(''/a'', 5)]\<rparr> \<and>
   walk two_devices_os (default_args [''/a'', ''/b'']) [''/a'', ''/b'']
     = Inr \<lparr>file_modtimes = [(''/a/f.py'', 100)], canonicals = {5}, permission_errors = {},
            scanned = [(''/a'', 5)]\<rparr>"
  by (simp add: two_devices_os_def physical_identity_def os_defs script_defs add_directory_numeral)

text \<open>
  C1, amended. The identity of a directory is its inode number alone: the number the caller
  passes, or \<open>st_ino\<close> of \<^verbatim>\<open>os.stat\<close> when none, or zero, is passed. On entry
  \<^verbatim>\<open>add_directory\<close> looks the identity up in \<^verbatim>\<open>canonicals\<close>; if it is there the call
  returns at once and nothing changes; otherwise the identity is in \<^verbatim>\<open>canonicals\<close> when
  the call returns, and \<^verbatim>\<open>canonicals\<close> only grows. No identity is listed twice: if the
  identities in the trace of \<^verbatim>\<open>os.scandir\<close> calls are distinct and all in
  \<^verbatim>\<open>canonicals\<close> before a call, they are so after it, whatever aliases the tree has, and
  after a whole walk the identities in the trace are distinct.
\<close>

theorem add_directory_visits_inode_once:
  "(resolve_inode e d ino = Inr ident \<longrightarrow> ident \<in> canonicals s \<longrightarrow>
      add_directory e a (Suc n) d ino s = Inr s) \<and>
   (resolve_inode e d ino = Inr ident \<longrightarrow> ident \<notin> canonicals s \<longrightarrow>
      add_directory e a (Suc n) d ino s = Inr s' \<longrightarrow>
      ident \<in> canonicals s' \<and> canonicals s \<subseteq> canonicals s') \<and>
   (visited_once s \<longrightarrow> add_directory e a n d ino s = Inr s' \<longrightarrow> visited_once s') \<and>
   (walk e a roots = Inr s' \<longrightarrow> distinct (map snd (scanned s')))"
proof (intro conjI impI)
  assume "resolve_inode e d ino = Inr ident" "ident \<in> canonicals s"
  then show "add_directory e a (Suc n) d ino s = Inr s" by simp
next
  assume "resolve_inode e d ino = Inr ident" "add_directory e a (Suc n) d ino s = Inr s'"
  then show "ident \<in> canonicals s'" using add_directory_records by blast
next
  assume "add_directory e a (Suc n) d ino s = Inr s'"
  then show "canonicals s \<subseteq> canonicals s'" by (rule add_directory_canonicals)
next
  assume "visited_once s" "add_directory e a n d ino s = Inr s'"
  then show "visited_once s'" using add_directory_visited_once by blast
next
  assume "walk e a roots = Inr s'"
  then show "distinct (map snd (scanned s'))" using walk_visited_once by (auto simp: visited_once_def)
qed

text \<open>
  In \<open>alias_os\<close> the names \<^verbatim>\<open>/r/x\<close> and \<^verbatim>\<open>/r/y\<close> reach one directory: it is listed
  under the first name only, and the call for the second returns the state unchanged.
\<close>

theorem add_directory_visits_inode_once_witness:
  "visited_once init_state \<and>
   add_directory alias_os (default_args [''/r'']) 8 ''/r'' None init_state
     = Inr \<lparr>file_modtimes = [(''/r/x/a.py'', 100)], canonicals = {2, 7}, permission_errors = {},
            scanned = [(''/r'', 2), (''/r/x'', 7)]\<rparr> \<and>
   resolve_inode alias_os ''/r/y'' (Some 7) = Inr 7 \<and>
   add_directory alias_os (default_args [''/r'']) 7 ''/r/y'' (Some 7)
       \<lparr>file_modtimes = [(''/r/x/a.py'', 100)], canonicals = {2, 7}, permission_errors = {},
        scanned = [(''/r'', 2), (''/r/x'', 7)]\<rparr>
     = Inr \<lparr>file_modtimes = [(''/r/x/a.py'', 100)], canonicals = {2, 7}, permission_errors = {},
            scanned = [(''/r'', 2), (''/r/x'', 7)]\<rparr> \<and>
   walk alias_os (default_args [''/r'']) [''/r'']
     = Inr \<lparr>file_modtimes = [(''/r/x/a.py'', 100)], canonicals = {2, 7}, permission_errors = {},
            scanned = [(''/r'', 2), (''/r/x'', 7)]\<rparr> \<and>
   visited_once \<lparr>file_modtimes = [(''/r/x/a.py'', 100)], canonicals = {2, 7}, permission_errors = {},
            scanned = [(''/r'', 2), (''/r/x'', 7)]\<rparr>"
  using add_directory_visits_inode_once
    [of alias_os "''/r/y''" "Some 7" 7
       "\<lparr>file_modtimes = [(''/r/x/a.py'', 100)], canonicals = {2, 7}, permission_errors = {},
         scanned = [(''/r'', 2), (''/r/x'', 7)]\<rparr>"
       "default_args [''/r'']" 6
       "\<lparr>file_modtimes = [(''/r/x/a.py'', 100)], canonicals = {2, 7}, permission_errors = {},
         scanned = [(''/r'', 2), (''/r/x'', 7)]\<rparr>" "[''/r'']"]
  by (simp add: alias_os_def visited_once_def os_defs script_defs add_directory_numeral insert_commute)

subsection \<open>C2: the dispatch order\<close>

text \<open>
  C2. For every registry, \<open>filenames_to_search\<close> yields all the paths of the registry,
  each as often as \<^verbatim>\<open>keys()\<close> has it (once), ordered by modification time descending;
  and the sort is stable: the paths that share a modification time come in the order in
  which the registry holds them, so the order among equal times is determined by the
  registry alone.
\<close>

theorem filenames_to_search_order:
  "mset (filenames_to_search d) = mset (keys d) \<and>
   sorted_wrt (\<lambda>f g. getitem d f \<ge> getitem d g) (filenames_to_search d) \<and>
   (\<forall>t. filter (\<lambda>f. getitem d f = t) (filenames_to_search d) = filter (\<lambda>f. getitem d f = t) (keys d))"
proof -
  let ?k = "getitem d"
  have "sorted (map ?k (sort_key ?k (rev (keys d))))" by simp
  then have "sorted_wrt (\<lambda>f g. ?k f \<le> ?k g) (sort_key ?k (rev (keys d)))"
    by (simp add: sorted_map)
  then have s: "sorted_wrt (\<lambda>f g. ?k f \<ge> ?k g) (filenames_to_search d)"
    by (simp add: filenames_to_search_def sorted_reverse_def sorted_wrt_rev)
  have st: "filter (\<lambda>f. ?k f = t) (filenames_to_search d) = filter (\<lambda>f. ?k f = t) (keys d)" for t
    by (simp add: filenames_to_search_def sorted_reverse_def sort_key_stable rev_filter [symmetric])
  show ?thesis using s st by (simp add: filenames_to_search_def sorted_reverse_def)
qed

text \<open>
  Four files, two times: the newer pair first, each pair in registry order.
\<close>

theorem filenames_to_search_order_witness:
  "filenames_to_search [(''a.py'', 1), (''b.py'', 2), (''c.py'', 1), (''d.py'', 2)]
     = [''b.py'', ''d.py'', ''a.py'', ''c.py''] \<and>
   mset (filenames_to_search [(''a.py'', 1), (''b.py'', 2), (''c.py'', 1), (''d.py'', 2)])
     = mset (keys [(''a.py'', 1::rat), (''b.py'', 2), (''c.py'', 1), (''d.py'', 2)])"
  using filenames_to_search_order [of "[(''a.py'', 1), (''b.py'', 2), (''c.py'', 1), (''d.py'', 2)]"]
  by (simp add: filenames_to_search_def sorted_reverse_def getitem_def keys_def)

subsection \<open>C3: a file that vanished before its lookup\<close>

text \<open>
  C3 as stated fails. \<^verbatim>\<open>add_file\<close> catches \<^verbatim>\<open>PermissionError\<close> only. In \<open>vanished_os\<close>
  the file \<^verbatim>\<open>/r/gone.py\<close> is listed by its directory and is gone when \<^verbatim>\<open>getmtime\<close> looks
  it up: \<^verbatim>\<open>add_file\<close> raises \<^verbatim>\<open>FileNotFoundError\<close>, and so does the walk of \<^verbatim>\<open>/r\<close>, which
  never reaches \<^verbatim>\<open>/r/kept.py\<close>.
\<close>

theorem vanished_file_is_fatal:
  "getmtime vanished_os ''/r/gone.py'' = Inl FileNotFoundError \<and>
   add_file vanished_os ''/r/gone.py'' init_state = Inl FileNotFoundError \<and>
   walk vanished_os (default_args [''/r'']) [''/r''] = Inl FileNotFoundError"
  by (simp add: vanished_os_def os_defs script_defs add_directory_numeral)

text \<open>
  C3, amended. When the lookup of the modification time fails with \<^verbatim>\<open>PermissionError\<close>,
  \<^verbatim>\<open>add_file\<close> adds the path to \<^verbatim>\<open>permission_errors\<close>, changes nothing else and returns
  normally. When it fails in any other way, as it does for a file deleted since it was
  listed, \<^verbatim>\<open>add_file\<close> raises that exception.
\<close>

theorem add_file_lookup_failure:
  "getmtime e filename = Inl err \<Longrightarrow>
     add_file e filename s =
       (if err = PermissionError
        then Inr (s\<lparr>permission_errors := insert filename (permission_errors s)\<rparr>)
        else Inl err)"
  by (simp add: add_file_def)

theorem add_file_lookup_failure_witness:
  "getmtime locked_os ''/r/secret.py'' = Inl PermissionError \<and>
   add_file locked_os ''/r/secret.py'' init_state =
     Inr (init_state\<lparr>permission_errors := {''/r/secret.py''}\<rparr>)"
  using add_file_lookup_failure [of locked_os "''/r/secret.py''" PermissionError init_state]
  by (simp add: locked_os_def os_defs getmtime_def)

subsection \<open>C4: a failure of grep\<close>

text \<open>
  C4 as stated fails. \<^verbatim>\<open>run_grep\<close> takes a run for failed only when the return code is
  not zero and something was written to the error stream. In \<open>killed_grep_os\<close> grep is
  killed by signal 9 before it writes anything: the return code is -9, which is no
  successful run, and \<^verbatim>\<open>run_grep\<close> returns the empty output, so the run goes on and ends
  normally with nothing printed for the file, as if no line of it had matched.
\<close>

theorem killed_grep_is_no_match:
  "\<not> ran_successfully (- 9) \<and>
   popen killed_grep_os [''grep'', ''-m'', ''5'', ''TODO'', ''/r/a.py''] = Inr ([], [], - 9) \<and>
   run_grep killed_grep_os [''grep'', ''-m'', ''5'', ''TODO'', ''/r/a.py''] = Inr (Some []) \<and>
   main killed_grep_os (default_args [''/r/a.py'']) =
     Inr \<lparr>stdout = [''Searching 1 files.''],
          spawned = [[''grep'', ''-m'', ''5'', ''TODO'', ''/r/a.py'']]\<rparr>"
  by (simp add: killed_grep_os_def ran_successfully_def os_defs script_defs main_defs)

text \<open>
  C4, amended. An invocation of \<^verbatim>\<open>run_grep\<close> raises when the process cannot be run, or
  when its return code is not zero and its stripped error stream is not empty; the
  exception raised for any file of the dispatch order leaves \<^verbatim>\<open>main\<close>, so the whole run
  is aborted. An invocation that hands back an empty stripped error stream is not taken
  for a failure, whatever its return code: \<^verbatim>\<open>run_grep\<close> returns its stripped output.
\<close>

theorem run_grep_failure_aborts_run:
  "(root_paths e a = Inr (roots, printed) \<longrightarrow> walk e a roots = Inr s \<longrightarrow>
      f \<in> set (filenames_to_search (file_modtimes s)) \<longrightarrow>
      (popen e (grep_cmdline a f) = Inl exn \<or>
       popen e (grep_cmdline a f) = Inr (out, err, ret) \<and> ret \<noteq> 0 \<and> strip err \<noteq> []) \<longrightarrow>
      (\<exists>x. run_grep e (grep_cmdline a f) = Inl x) \<and> (\<exists>x. main e a = Inl x)) \<and>
   (popen e cmdline = Inr (out, err, ret) \<longrightarrow> strip err = [] \<longrightarrow>
      run_grep e cmdline = Inr (Some (strip out)))"
proof (intro conjI impI)
  assume rp: "root_paths e a = Inr (roots, printed)" and w: "walk e a roots = Inr s"
    and f: "f \<in> set (filenames_to_search (file_modtimes s))"
    and p: "popen e (grep_cmdline a f) = Inl exn \<or>
            popen e (grep_cmdline a f) = Inr (out, err, ret) \<and> ret \<noteq> 0 \<and> strip err \<noteq> []"
  from p show g: "\<exists>x. run_grep e (grep_cmdline a f) = Inl x"
    by (auto simp: run_grep_def Let_def)
  then have "\<exists>x. search_file e a (file_modtimes s) f t = Inl x" for t
    by (auto simp: search_file_def Let_def)
  then have "\<exists>x. for_each (search_file e a (file_modtimes s)) (filenames_to_search (file_modtimes s))
                  \<lparr>stdout = printed @ summary a s, spawned = []\<rparr> = Inl x"
    by (rule for_each_raises [OF f])
  then show "\<exists>x. main e a = Inl x" using rp w by (simp add: main_def)
next
  assume "popen e cmdline = Inr (out, err, ret)" "strip err = []"
  then show "run_grep e cmdline = Inr (Some (strip out))" by (simp add: run_grep_def Let_def)
qed

theorem run_grep_failure_aborts_run_witness:
  "root_paths broken_grep_os (default_args [''/r/a.py'']) = Inr ([''/r/a.py''], []) \<and>
   walk broken_grep_os (default_args [''/r/a.py'']) [''/r/a.py'']
     = Inr (init_state\<lparr>file_modtimes := [(''/r/a.py'', 100)]\<rparr>) \<and>
   popen broken_grep_os (grep_cmdline (default_args [''/r/a.py'']) ''/r/a.py'')
     = Inr ([], ''grep: Input/output error'', 2) \<and>
   main broken_grep_os (default_args [''/r/a.py''])
     = Inl (SubprocessFailed 2 ''grep: Input/output error'' []) \<and>
   popen killed_grep_os [''grep''] = Inr ([], [], - 9) \<and>
   run_grep killed_grep_os [''grep''] = Inr (Some [])"
  using run_grep_failure_aborts_run
    [of broken_grep_os "default_args [''/r/a.py'']" "[''/r/a.py'']" "[]"
       "init_state\<lparr>file_modtimes := [(''/r/a.py'', 100)]\<rparr>" "''/r/a.py''" OSError "[]"
       "''grep: Input/output error''" 2 "[''grep'']"]
    run_grep_failure_aborts_run
    [of killed_grep_os "default_args []" "[]" "[]" init_state "[]" OSError "[]" "[]" "- 9" "[''grep'']"]
  by (simp add: broken_grep_os_def killed_grep_os_def os_defs script_defs main_defs)

subsection \<open>C5: a root path that is a plain file\<close>

text \<open>
  C5. A root path that is a plain file is registered with its modification time by the
  very step that handles it, with no test of its suffix and none of its directory; it stays
  registered to the end of the walk; and a run that comes to its end has called grep on
  it. (A run ends early only by an exception: a root path that does not exist, an
  exception out of the walk, a failure of grep.) \<^verbatim>\<open>isfile\<close> and \<^verbatim>\<open>getmtime\<close> are both
  \<^verbatim>\<open>os.stat\<close> of the same path, so the lookup of a plain file succeeds.
\<close>

theorem root_file_registered_and_searched:
  assumes "isfile e p"
  shows "(\<exists>t. getmtime e p = Inr t \<and>
            (\<forall>s. add_root e a p s = Inr (s\<lparr>file_modtimes := setitem p t (file_modtimes s)\<rparr>))) \<and>
         (\<forall>roots s. p \<in> set roots \<longrightarrow> walk e a roots = Inr s \<longrightarrow> p \<in> set (keys (file_modtimes s))) \<and>
         (\<forall>roots printed r. root_paths e a = Inr (roots, printed) \<longrightarrow> p \<in> set roots \<longrightarrow>
            main e a = Inr r \<longrightarrow> grep_cmdline a p \<in> set (spawned r))"
proof (intro conjI allI impI)
  show "\<exists>t. getmtime e p = Inr t \<and>
          (\<forall>s. add_root e a p s = Inr (s\<lparr>file_modtimes := setitem p t (file_modtimes s)\<rparr>))"
    by (rule add_root_file [OF assms])
next
  fix roots s assume "p \<in> set roots" "walk e a roots = Inr s"
  then show "p \<in> set (keys (file_modtimes s))"
    using roots_loop_registers [of e a roots init_state s p] assms by (simp add: walk_def)
next
  fix roots printed r
  assume rp: "root_paths e a = Inr (roots, printed)" and p: "p \<in> set roots" and m: "main e a = Inr r"
  from m rp obtain s where w: "walk e a roots = Inr s"
    and l: "for_each (search_file e a (file_modtimes s)) (filenames_to_search (file_modtimes s))
              \<lparr>stdout = printed @ summary a s, spawned = []\<rparr> = Inr r"
    by (auto simp: main_def split: sum.splits)
  have "p \<in> set (keys (file_modtimes s))"
    using roots_loop_registers [of e a roots init_state s p] assms p w by (simp add: walk_def)
  then have "p \<in> set (filenames_to_search (file_modtimes s))"
    by (simp add: set_filenames_to_search)
  then show "grep_cmdline a p \<in> set (spawned r)"
    using search_loop_spawned [OF l] by simp
qed

text \<open>
  \<^verbatim>\<open>/r/.git/notes.txt\<close>: the suffix is not a source suffix, the directory is hidden, and
  the file is registered and searched.
\<close>

theorem root_file_registered_and_searched_witness:
  "isfile notes_os ''/r/.git/notes.txt'' \<and>
   \<not> list_ex (endswith ''/r/.git/notes.txt'') required_suffixes \<and>
   excluded (default_args [''/r/.git/notes.txt'']) ''/r/.git'' \<and>
   walk notes_os (default_args [''/r/.git/notes.txt'']) [''/r/.git/notes.txt'']
     = Inr (init_state\<lparr>file_modtimes := [(''/r/.git/notes.txt'', 100)]\<rparr>) \<and>
   main notes_os (default_args [''/r/.git/notes.txt''])
     = Inr \<lparr>stdout = [''Searching 1 files.'', ''notes.txt 2.0 days ago (/r/.git/notes.txt)'',
                       ''    TODO one'', ''''],
            spawned = [[''grep'', ''-m'', ''5'', ''TODO'', ''/r/.git/notes.txt'']]\<rparr> \<and>
   grep_cmdline (default_args [''/r/.git/notes.txt'']) ''/r/.git/notes.txt''
     \<in> set [[''grep'', ''-m'', ''5'', ''TODO'', ''/r/.git/notes.txt'']]"
  using root_file_registered_and_searched
    [of notes_os "''/r/.git/notes.txt''" "default_args [''/r/.git/notes.txt'']"]
  by (simp add: notes_os_def os_defs script_defs main_defs)

subsection \<open>C6: access denied during the walk\<close>

text \<open>
  C6. When the listing of a directory is denied, \<^verbatim>\<open>add_directory\<close> returns normally; the
  directory is the one path added to \<^verbatim>\<open>permission_errors\<close> and no file is registered.
  When the classification of a child is denied (at whichever of the three tests), the
  path of the child is added to \<^verbatim>\<open>permission_errors\<close> and the loop goes on with the
  remaining entries. Neither the loop over the entries nor \<^verbatim>\<open>add_file\<close> ever raises
  \<^verbatim>\<open>PermissionError\<close>; and no \<^verbatim>\<open>PermissionError\<close> leaves a walk in which the directory
  listings carry non-zero inode numbers (the one \<^verbatim>\<open>os.stat\<close> outside the handlers, at line
  39, is made for a listed directory only when its inode number is 0).
\<close>

theorem access_denied_is_recovered:
  "(resolve_inode e d ino = Inr ident \<longrightarrow> ident \<notin> canonicals s \<longrightarrow> \<not> excluded a d \<longrightarrow>
      scandir e d = Inl PermissionError \<longrightarrow>
      add_directory e a (Suc n) d ino s
        = Inr (s\<lparr>canonicals := insert ident (canonicals s), scanned := scanned s @ [(d, ident)],
                permission_errors := insert d (permission_errors s)\<rparr>)) \<and>
   (is_symlink x = Inl PermissionError \<or>
    is_symlink x = Inr False \<and>
      (is_dir x = Inl PermissionError \<or> is_dir x = Inr False \<and> is_file x = Inl PermissionError) \<longrightarrow>
      for_each (classify d) (x # xs) (dirs, files, s)
        = for_each (classify d) xs
            (dirs, files, s\<lparr>permission_errors := insert (join d (name x)) (permission_errors s)\<rparr>)) \<and>
   for_each (classify d) entries l \<noteq> Inl PermissionError \<and>
   add_file e f s \<noteq> Inl PermissionError \<and>
   (inodes_listed e \<longrightarrow> walk e a roots \<noteq> Inl PermissionError)"
proof (intro conjI impI)
  assume "resolve_inode e d ino = Inr ident" "ident \<notin> canonicals s" "\<not> excluded a d"
    "scandir e d = Inl PermissionError"
  then show "add_directory e a (Suc n) d ino s
        = Inr (s\<lparr>canonicals := insert ident (canonicals s), scanned := scanned s @ [(d, ident)],
                permission_errors := insert d (permission_errors s)\<rparr>)"
    by (simp add: Let_def)
next
  assume "is_symlink x = Inl PermissionError \<or>
    is_symlink x = Inr False \<and>
      (is_dir x = Inl PermissionError \<or> is_dir x = Inr False \<and> is_file x = Inl PermissionError)"
  then show "for_each (classify d) (x # xs) (dirs, files, s)
        = for_each (classify d) xs
            (dirs, files, s\<lparr>permission_errors := insert (join d (name x)) (permission_errors s)\<rparr>)"
    by (simp add: classify_denied)
next
  show "for_each (classify d) entries l \<noteq> Inl PermissionError"
    by (rule for_each_not_raised) (rule classify_not_denied)
next
  show "add_file e f s \<noteq> Inl PermissionError" by (rule add_file_not_denied)
next
  assume "inodes_listed e"
  then show "walk e a roots \<noteq> Inl PermissionError"
    unfolding walk_def by (intro for_each_not_raised add_root_not_denied)
qed

text \<open>
  In \<open>locked_os\<close> one directory cannot be listed, one entry cannot be classified and one
  file cannot be looked up: all three are recorded and the walk registers the remaining
  file.
\<close>

theorem access_denied_is_recovered_witness:
  "resolve_inode locked_os ''/r/locked'' (Some 3) = Inr 3 \<and>
   \<not> excluded (default_args [''/r'']) ''/r/locked'' \<and>
   scandir locked_os ''/r/locked'' = Inl PermissionError \<and>
   add_directory locked_os (default_args [''/r'']) 8 ''/r/locked'' (Some 3) init_state
     = Inr \<lparr>file_modtimes = [], canonicals = {3}, permission_errors = {''/r/locked''},
            scanned = [(''/r/locked'', 3)]\<rparr> \<and>
   is_dir (entry_unreadable ''odd'' 4) = Inl PermissionError \<and>
   for_each (classify ''/r'') [entry_unreadable ''odd'' 4, entry_file ''a.py'' 5] ([], [], init_state)
     = Inr ([], [''a.py''], init_state\<lparr>permission_errors := {''/r/odd''}\<rparr>) \<and>
   inodes_listed locked_os \<and>
   walk locked_os (default_args [''/r'']) [''/r'']
     = Inr \<lparr>file_modtimes = [(''/r/a.py'', 100)], canonicals = {2, 3},
            permission_errors = {''/r/locked'', ''/r/odd'', ''/r/secret.py''},
            scanned = [(''/r'', 2), (''/r/locked'', 3)]\<rparr>"
  using access_denied_is_recovered
    [of locked_os "''/r/locked''" "Some 3" 3 init_state "default_args [''/r'']" 7
       "entry_unreadable ''odd'' 4" "[]" "[]" "[]" "[]" "([], [], init_state)" "''/r/a.py''" "[''/r'']"]
    inodes_listed_locked_os
  by (simp add: locked_os_def os_defs script_defs add_directory_numeral insert_commute)

subsection \<open>C7: symbolic links\<close>

text \<open>
  C7. An entry that is a symbolic link leaves the locals of the loop as they are, whatever
  \<^verbatim>\<open>is_dir()\<close> and \<^verbatim>\<open>is_file()\<close> would answer for it: it is put neither among the
  directories nor among the files. For the whole walk: taking every symbolic link out of
  every listing changes nothing in what \<^verbatim>\<open>add_directory\<close> returns, neither the registry nor
  the permission errors nor the identities recorded nor the directories listed.
\<close>

theorem symlinks_are_ignored:
  "(is_symlink x = Inr True \<longrightarrow> classify d x l = Inr l) \<and>
   add_directory (without_symlinks e) a n d ino s = add_directory e a n d ino s"
  by (simp add: classify_symlink add_directory_without_symlinks)

text \<open>
  In \<open>loop_os\<close> the link \<^verbatim>\<open>/r/loop\<close> points back to \<^verbatim>\<open>/r\<close>; the walk lists \<^verbatim>\<open>/r\<close> once.
\<close>

theorem symlinks_are_ignored_witness:
  "is_symlink (entry_link ''loop'' 2) = Inr True \<and>
   is_dir (entry_link ''loop'' 2) = Inr True \<and>
   classify ''/r'' (entry_link ''loop'' 2) ([], [], init_state) = Inr ([], [], init_state) \<and>
   add_directory (without_symlinks loop_os) (default_args [''/r'']) 8 ''/r'' None init_state
     = add_directory loop_os (default_args [''/r'']) 8 ''/r'' None init_state \<and>
   add_directory loop_os (default_args [''/r'']) 8 ''/r'' None init_state
     = Inr \<lparr>file_modtimes = [(''/r/a.py'', 100)], canonicals = {2}, permission_errors = {},
            scanned = [(''/r'', 2)]\<rparr>"
  using symlinks_are_ignored
    [of "entry_link ''loop'' 2" "''/r''" "([], [], init_state)" loop_os "default_args [''/r'']" 8
       None init_state]
  by (simp add: loop_os_def os_defs script_defs add_directory_numeral)

subsection \<open>C8: the directory of a runtime distribution\<close>

text \<open>
  C8. With \<^verbatim>\<open>skip_anaconda_dirs\<close> set, take a directory that is reached under a new
  identity, is not excluded by its path and is listed, and whose entries include, for
  each of the names \<^verbatim>\<open>condabin\<close>, \<^verbatim>\<open>bin\<close> and \<^verbatim>\<open>conda-meta\<close>, a directory that is no
  symbolic link. Then \<^verbatim>\<open>add_directory\<close> returns the state in which the loop over all the
  entries has ended (so the test comes after the whole listing has been classified): no
  file is registered, no identity but the directory's own is recorded and no other
  directory is listed.
\<close>

theorem anaconda_directory_is_skipped:
  assumes "skip_anaconda_dirs a"
    and "resolve_inode e d ino = Inr ident" and "ident \<notin> canonicals s" and "\<not> excluded a d"
    and "scandir e d = Inr entries"
    and "for_each (classify d) entries
           ([], [], s\<lparr>canonicals := insert ident (canonicals s), scanned := scanned s @ [(d, ident)]\<rparr>)
         = Inr (dirs, files, s')"
    and "\<forall>marker \<in> {''condabin'', ''bin'', ''conda-meta''}.
           \<exists>x \<in> set entries. name x = marker \<and> is_symlink x = Inr False \<and> is_dir x = Inr True"
  shows "add_directory e a (Suc n) d ino s = Inr s' \<and>
         file_modtimes s' = file_modtimes s \<and>
         canonicals s' = insert ident (canonicals s) \<and>
         scanned s' = scanned s @ [(d, ident)]"
proof -
  have "marker \<in> set (keys dirs)" if "marker \<in> {''condabin'', ''bin'', ''conda-meta''}" for marker
  proof -
    from assms(7) that obtain x where "x \<in> set entries" "name x = marker"
      "is_symlink x = Inr False" "is_dir x = Inr True"
      by blast
    then show ?thesis using classify_loop_finds_dir [OF assms(6)] by blast
  qed
  then have "is_anaconda dirs" by (simp add: is_anaconda_def)
  then have "add_directory e a (Suc n) d ino s = Inr s'"
    using assms(1-6) by (simp add: Let_def)
  then show ?thesis using classify_loop_state [OF assms(6)] by simp
qed

text \<open>
  \<^verbatim>\<open>/opt/conda\<close> holds a source file and a fourth directory; neither is touched.
\<close>

theorem anaconda_directory_is_skipped_witness:
  "skip_anaconda_dirs (default_args [''/opt/conda'']) \<and>
   resolve_inode conda_os ''/opt/conda'' None = Inr 2 \<and>
   2 \<notin> canonicals init_state \<and>
   \<not> excluded (default_args [''/opt/conda'']) ''/opt/conda'' \<and>
   scandir conda_os ''/opt/conda''
     = Inr [entry_dir ''bin'' 3, entry_file ''setup.py'' 5, entry_dir ''condabin'' 4,
            entry_dir ''conda-meta'' 6, entry_dir ''lib'' 7] \<and>
   for_each (classify ''/opt/conda'')
       [entry_dir ''bin'' 3, entry_file ''setup.py'' 5, entry_dir ''condabin'' 4,
        entry_dir ''conda-meta'' 6, entry_dir ''lib'' 7]
       ([], [], init_state\<lparr>canonicals := {2}, scanned := [(''/opt/conda'', 2)]\<rparr>)
     = Inr ([(''bin'', entry_dir ''bin'' 3), (''condabin'', entry_dir ''condabin'' 4),
             (''conda-meta'', entry_dir ''conda-meta'' 6), (''lib'', entry_dir ''lib'' 7)],
            [''setup.py''],
            \<lparr>file_modtimes = [], canonicals = {2}, permission_errors = {},
             scanned = [(''/opt/conda'', 2)]\<rparr>) \<and>
   add_directory conda_os (default_args [''/opt/conda'']) 8 ''/opt/conda'' None init_state
     = Inr \<lparr>file_modtimes = [], canonicals = {2}, permission_errors = {},
            scanned = [(''/opt/conda'', 2)]\<rparr>"
  using anaconda_directory_is_skipped
    [of "default_args [''/opt/conda'']" conda_os "''/opt/conda''" None 2 init_state
       "[entry_dir ''bin'' 3, entry_file ''setup.py'' 5, entry_dir ''condabin'' 4,
         entry_dir ''conda-meta'' 6, entry_dir ''lib'' 7]"
       "[(''bin'', entry_dir ''bin'' 3), (''condabin'', entry_dir ''condabin'' 4),
         (''conda-meta'', entry_dir ''conda-meta'' 6), (''lib'', entry_dir ''lib'' 7)]"
       "[''setup.py'']"
       "\<lparr>file_modtimes = [], canonicals = {2}, permission_errors = {},
         scanned = [(''/opt/conda'', 2)]\<rparr>" 7]
  by (simp add: conda_os_def os_defs script_defs)

subsection \<open>C9: the width of a printed line\<close>

text \<open>
  C9 as stated fails for the first and the last matched line of a file. \<^verbatim>\<open>run_grep\<close> strips
  the whole output of grep before \<^verbatim>\<open>main\<close> splits it into lines, so the blanks that begin
  the first matched line and those that end the last are gone before the width is tested.
  In \<open>indented_os\<close> the first matched line is indented by eight blanks and is well below
  95 characters; what is printed has the four blanks of the report and none of the eight,
  so the line is not printed as grep selected it.
\<close>

theorem indented_match_is_not_verbatim:
  "popen indented_os [''grep'', ''-m'', ''5'', ''TODO'', ''/r/a.py'']
     = Inr (''        x = 1  # TODO'' @ [CHR 0x0A] @
            ''yyyyyyyyyyyyyyyyyyyyyyyyyyyyyyyyyyyyyyyyyyyyyyyyyyyyyyyyyyyyyyyyyyyyyyyyyyyyyyyyyyyyyyyyyyyyyyyyy'' @
            ''   '' @ [CHR 0x0A], [], 0) \<and>
   length ''        x = 1  # TODO'' \<le> 95 \<and>
   main indented_os (default_args [''/r/a.py''])
     = Inr \<lparr>stdout = [''Searching 1 files.'', ''a.py 2.0 days ago (/r/a.py)'',
                       ''    x = 1  # TODO'',
                       ''    yyyyyyyyyyyyyyyyyyyyyyyyyyyyyyyyyyyyyyyyyyyyyyyyyyyyyyyyyyyyyyyyyyyyyyyyyyyyyyyyyyyyyyyyyyyyyyy...'',
                       ''''],
            spawned = [[''grep'', ''-m'', ''5'', ''TODO'', ''/r/a.py'']]\<rparr> \<and>
   ''    '' @ ''        x = 1  # TODO''
     \<notin> set [''Searching 1 files.'', ''a.py 2.0 days ago (/r/a.py)'', ''    x = 1  # TODO'',
              ''    yyyyyyyyyyyyyyyyyyyyyyyyyyyyyyyyyyyyyyyyyyyyyyyyyyyyyyyyyyyyyyyyyyyyyyyyyyyyyyyyyyyyyyyyyyyyyyy...'',
              '''']"
  by (simp add: indented_os_def os_defs script_defs main_defs)

text \<open>
  C9, amended. The lines that are rendered are those of the output of grep after
  \<^verbatim>\<open>run_grep\<close> has stripped the white space from both ends of the whole output, split at
  the newlines (no line holds a newline, and the lines joined by newlines are the stripped
  output). For a file whose stripped output is not empty, \<^verbatim>\<open>main\<close> prints the header,
  then for every such line four blanks followed by the first 95 characters of the line
  and the marker \<^verbatim>\<open>...\<close> if the line is longer than 95 characters, and by the line
  unchanged if it is not, then an empty line. The blanks at the start of the first
  matched line and at the end of the last are not printed.
\<close>

theorem matched_lines_are_rendered:
  "(popen e (grep_cmdline a f) = Inr (out0, err0, ret) \<longrightarrow> (ret = 0 \<or> strip err0 = []) \<longrightarrow>
      strip out0 \<noteq> [] \<longrightarrow>
      search_file e a d f r
        = Inr (r\<lparr>spawned := spawned r @ [grep_cmdline a f],
                 stdout := stdout r @
                   [basename f @ '' '' @ interpret_time e (getitem d f) @ '' ('' @ f @ '')''] @
                   map (\<lambda>l. ''    '' @ (if 95 < length l then take 95 l @ ''...'' else l))
                     (split_nl (strip out0)) @
                   [[]]\<rparr>)) \<and>
   CHR 0x0A \<notin> set (concat (split_nl s)) \<and>
   concat (map (\<lambda>l. l @ [CHR 0x0A]) (split_nl s)) = s @ [CHR 0x0A] \<and>
   (root_paths e a = Inr (roots, printed) \<longrightarrow> walk e a roots = Inr st \<longrightarrow> main e a = Inr r' \<longrightarrow>
      f \<in> set (filenames_to_search (file_modtimes st)) \<longrightarrow>
      popen e (grep_cmdline a f) = Inr (out0, err0, ret) \<longrightarrow> strip out0 \<noteq> [] \<longrightarrow>
      l \<in> set (split_nl (strip out0)) \<longrightarrow>
      ''    '' @ (if 95 < length l then take 95 l @ ''...'' else l) \<in> set (stdout r'))"
proof (intro conjI impI)
  assume "popen e (grep_cmdline a f) = Inr (out0, err0, ret)" "ret = 0 \<or> strip err0 = []"
    "strip out0 \<noteq> []"
  then show "search_file e a d f r
        = Inr (r\<lparr>spawned := spawned r @ [grep_cmdline a f],
                 stdout := stdout r @
                   [basename f @ '' '' @ interpret_time e (getitem d f) @ '' ('' @ f @ '')''] @
                   map (\<lambda>l. ''    '' @ (if 95 < length l then take 95 l @ ''...'' else l))
                     (split_nl (strip out0)) @
                   [[]]\<rparr>)"
    by (rule search_file_prints)
next
  show "CHR 0x0A \<notin> set (concat (split_nl s))" by (rule split_nl_no_newline)
next
  show "concat (map (\<lambda>l. l @ [CHR 0x0A]) (split_nl s)) = s @ [CHR 0x0A]" by (rule split_nl_rejoin)
next
  assume rp: "root_paths e a = Inr (roots, printed)" and w: "walk e a roots = Inr st"
    and m: "main e a = Inr r'" and f: "f \<in> set (filenames_to_search (file_modtimes st))"
    and p: "popen e (grep_cmdline a f) = Inr (out0, err0, ret)" and o: "strip out0 \<noteq> []"
    and l: "l \<in> set (split_nl (strip out0))"
  from m rp w have "for_each (search_file e a (file_modtimes st)) (filenames_to_search (file_modtimes st))
      \<lparr>stdout = printed @ summary a st, spawned = []\<rparr> = Inr r'"
    by (simp add: main_def)
  then show "''    '' @ (if 95 < length l then take 95 l @ ''...'' else l) \<in> set (stdout r')"
    using f p o l by (rule search_loop_prints)
qed

theorem matched_lines_are_rendered_witness:
  "popen indented_os (grep_cmdline (default_args [''/r/a.py'']) ''/r/a.py'')
     = Inr (''        x = 1  # TODO'' @ [CHR 0x0A] @
            ''yyyyyyyyyyyyyyyyyyyyyyyyyyyyyyyyyyyyyyyyyyyyyyyyyyyyyyyyyyyyyyyyyyyyyyyyyyyyyyyyyyyyyyyyyyyyyyyyy'' @
            ''   '' @ [CHR 0x0A], [], 0) \<and>
   split_nl (strip (''        x = 1  # TODO'' @ [CHR 0x0A] @
            ''yyyyyyyyyyyyyyyyyyyyyyyyyyyyyyyyyyyyyyyyyyyyyyyyyyyyyyyyyyyyyyyyyyyyyyyyyyyyyyyyyyyyyyyyyyyyyyyyy'' @
            ''   '' @ [CHR 0x0A]))
     = [''x = 1  # TODO'',
        ''yyyyyyyyyyyyyyyyyyyyyyyyyyyyyyyyyyyyyyyyyyyyyyyyyyyyyyyyyyyyyyyyyyyyyyyyyyyyyyyyyyyyyyyyyyyyyyyyy''] \<and>
   search_file indented_os (default_args [''/r/a.py'']) [(''/r/a.py'', 100)] ''/r/a.py''
       \<lparr>stdout = [], spawned = []\<rparr>
     = Inr \<lparr>stdout = [''a.py 2.0 days ago (/r/a.py)'', ''    x = 1  # TODO'',
                       ''    yyyyyyyyyyyyyyyyyyyyyyyyyyyyyyyyyyyyyyyyyyyyyyyyyyyyyyyyyyyyyyyyyyyyyyyyyyyyyyyyyyyyyyyyyyyyyyy...'',
                       ''''],
            spawned = [[''grep'', ''-m'', ''5'', ''TODO'', ''/r/a.py'']]\<rparr> \<and>
   main indented_os (default_args [''/r/a.py''])
     = Inr \<lparr>stdout = [''Searching 1 files.'', ''a.py 2.0 days ago (/r/a.py)'',
                     ''    x = 1  # TODO'',
                     ''    yyyyyyyyyyyyyyyyyyyyyyyyyyyyyyyyyyyyyyyyyyyyyyyyyyyyyyyyyyyyyyyyyyyyyyyyyyyyyyyyyyyyyyyyyyyyyyy...'',
                     ''''],
           spawned = [[''grep'', ''-m'', ''5'', ''TODO'', ''/r/a.py'']]\<rparr> \<and>
   ''x = 1  # TODO'' \<in> set [''x = 1  # TODO'', ''yyyyyyyyyyyyyyyyyyyyyyyyyyyyyyyyyyyyyyyyyyyyyyyyyyyyyyyyyyyyyyyyyyyyyyyyyyyyyyyyyyyyyyyyyyyyyyyyy'']"
  using matched_lines_are_rendered
    [of indented_os "default_args [''/r/a.py'']" "''/r/a.py''"
       "''        x = 1  # TODO'' @ [CHR 0x0A] @
        ''yyyyyyyyyyyyyyyyyyyyyyyyyyyyyyyyyyyyyyyyyyyyyyyyyyyyyyyyyyyyyyyyyyyyyyyyyyyyyyyyyyyyyyyyyyyyyyyyy'' @
        ''   '' @ [CHR 0x0A]" "[]" 0 "[(''/r/a.py'', 100)]" "\<lparr>stdout = [], spawned = []\<rparr>"
       "[]" "[''/r/a.py'']" "[]" "init_state\<lparr>file_modtimes := [(''/r/a.py'', 100)]\<rparr>"
       "\<lparr>stdout = [''Searching 1 files.'', ''a.py 2.0 days ago (/r/a.py)'',
                   ''    x = 1  # TODO'',
                   ''    yyyyyyyyyyyyyyyyyyyyyyyyyyyyyyyyyyyyyyyyyyyyyyyyyyyyyyyyyyyyyyyyyyyyyyyyyyyyyyyyyyyyyyyyyyyyyyy...'',
                   ''''],
         spawned = [[''grep'', ''-m'', ''5'', ''TODO'', ''/r/a.py'']]\<rparr>"
       "''x = 1  # TODO''"]
  by (simp add: indented_os_def os_defs script_defs main_defs)

subsection \<open>C10: when \<^verbatim>\<open>run_grep\<close> raises\<close>

text \<open>
  C10. Once the subprocess has run and handed back its output, its error stream and its
  return code, \<^verbatim>\<open>run_grep\<close> raises if and only if the return code is not zero and the
  stripped error stream is not empty; in every other case it returns the stripped output.
\<close>

theorem run_grep_raises_iff:
  "popen e cmdline = Inr (out, err, ret) \<Longrightarrow>
     ((\<exists>exn. run_grep e cmdline = Inl exn) \<longleftrightarrow> ret \<noteq> 0 \<and> strip err \<noteq> []) \<and>
     (if ret \<noteq> 0 \<and> strip err \<noteq> []
      then run_grep e cmdline = Inl (SubprocessFailed ret (strip err) (strip out))
      else run_grep e cmdline = Inr (Some (strip out)))"
  by (simp add: run_grep_def Let_def)

text \<open>
  No line selected (status 1, nothing on the error stream), and a failure with a message.
\<close>

theorem run_grep_raises_iff_witness:
  "popen empty_os [''grep'', ''-m'', ''5'', ''TODO'', ''/r/a.py''] = Inr ([], [], 1) \<and>
   run_grep empty_os [''grep'', ''-m'', ''5'', ''TODO'', ''/r/a.py''] = Inr (Some []) \<and>
   popen broken_grep_os [''grep'', ''-m'', ''5'', ''TODO'', ''/r/a.py'']
     = Inr ([], ''grep: Input/output error'', 2) \<and>
   run_grep broken_grep_os [''grep'', ''-m'', ''5'', ''TODO'', ''/r/a.py'']
     = Inl (SubprocessFailed 2 ''grep: Input/output error'' [])"
  using run_grep_raises_iff [of empty_os "[''grep'', ''-m'', ''5'', ''TODO'', ''/r/a.py'']" "[]" "[]" 1]
    run_grep_raises_iff [of broken_grep_os "[''grep'', ''-m'', ''5'', ''TODO'', ''/r/a.py'']" "[]"
      "''grep: Input/output error''" 2]
  by (simp add: empty_os_def broken_grep_os_def strip_def isspace_def)

end
